(* ===== verification/Hdfs_Prelude.thy ===== *)
theory Hdfs_Prelude
  imports Main "HOL-Library.Word" "HOL-Library.Sublist"
begin

text \<open>
  The vocabulary every component shares: bytes and C strings, the \<open>errno\<close> codes the plugin
  uses, the string routines of the C library that the source calls (each restricted to the
  question the source asks of it), numbers printed in decimal and in hexadecimal, and segments
  of byte lists.  A byte is a \<^typ>\<open>char\<close>: C uses \<^verbatim>\<open>char\<close> and \<^verbatim>\<open>unsigned char\<close> for file data and
  for text alike.  A \<^verbatim>\<open>char *\<close> that may be null is a \<^typ>\<open>string option\<close>.
\<close>

unbundle bit_operations_syntax

named_theorems segment_simps "facts on segments of byte lists"
named_theorems cstring_simps "facts on the C string routines"
named_theorems frame_simps "fields an operation does not change"

type_synonym bytes = "char list"
type_synonym cstr = "string option"


section \<open>Error codes (Linux)\<close>

abbreviation (input) ENOENT :: int where "ENOENT \<equiv> 2"
abbreviation (input) ESRCH :: int where "ESRCH \<equiv> 3"
abbreviation (input) EINTR :: int where "EINTR \<equiv> 4"
abbreviation (input) EIO :: int where "EIO \<equiv> 5"
abbreviation (input) EBADF :: int where "EBADF \<equiv> 9"
abbreviation (input) ENOMEM :: int where "ENOMEM \<equiv> 12"
abbreviation (input) EEXIST :: int where "EEXIST \<equiv> 17"
abbreviation (input) EISDIR :: int where "EISDIR \<equiv> 21"
abbreviation (input) EINVAL :: int where "EINVAL \<equiv> 22"
abbreviation (input) EDOM :: int where "EDOM \<equiv> 33"
abbreviation (input) ENAMETOOLONG :: int where "ENAMETOOLONG \<equiv> 36"
abbreviation (input) ENOTSUP :: int where "ENOTSUP \<equiv> 95"

abbreviation (input) XrdOssOK :: int where "XrdOssOK \<equiv> 0"


section \<open>C strings\<close>

abbreviation (input) NUL :: char where "NUL \<equiv> CHR 0x00"
abbreviation (input) newline :: char where "newline \<equiv> CHR 0x0A"

text \<open>What a reader of a \<^verbatim>\<open>char *\<close> sees of a byte sequence: everything before the first null.\<close>

definition c_str :: "bytes \<Rightarrow> string" where
  "c_str bs = takeWhile (\<lambda>c. c \<noteq> NUL) bs"

definition nul_free :: "bytes \<Rightarrow> bool" where
  "nul_free bs \<longleftrightarrow> NUL \<notin> set bs"

lemma c_str_nul_free [cstring_simps]: "nul_free bs \<Longrightarrow> c_str bs = bs"
  by (auto simp: nul_free_def c_str_def takeWhile_eq_all_conv)

lemma nul_free_c_str [simp]: "nul_free (c_str bs)"
  unfolding nul_free_def c_str_def by (auto dest: set_takeWhileD)

lemma c_str_append_nul [cstring_simps]: "nul_free bs \<Longrightarrow> c_str (bs @ NUL # cs) = bs"
  by (auto simp: nul_free_def c_str_def takeWhile_append)

lemma nul_free_append [simp]: "nul_free (xs @ ys) \<longleftrightarrow> nul_free xs \<and> nul_free ys"
  by (auto simp: nul_free_def)

lemma nul_free_Nil [simp]: "nul_free []"
  by (simp add: nul_free_def)

lemma nul_free_Cons [simp]: "nul_free (c # cs) \<longleftrightarrow> c \<noteq> NUL \<and> nul_free cs"
  by (auto simp: nul_free_def)

text \<open>\<^verbatim>\<open>strncmp (a, b, n) == 0\<close> for two C strings: the terminating null takes part.\<close>

definition strncmp_eq :: "string \<Rightarrow> string \<Rightarrow> nat \<Rightarrow> bool" where
  "strncmp_eq a b n \<longleftrightarrow> take n (a @ [NUL]) = take n (b @ [NUL])"

definition tolower :: "char \<Rightarrow> char" where
  "tolower c = (let n = (of_char c :: nat) in
     if 65 \<le> n \<and> n \<le> 90 then char_of (n + 32) else c)"

definition toupper :: "char \<Rightarrow> char" where
  "toupper c = (let n = (of_char c :: nat) in
     if 97 \<le> n \<and> n \<le> 122 then char_of (n - 32) else c)"

definition strcasecmp_eq :: "string \<Rightarrow> string \<Rightarrow> bool" where
  "strcasecmp_eq a b \<longleftrightarrow> map tolower a = map tolower b"

definition strncasecmp_eq :: "string \<Rightarrow> string \<Rightarrow> nat \<Rightarrow> bool" where
  "strncasecmp_eq a b n \<longleftrightarrow> strncmp_eq (map tolower a) (map tolower b) n"

text \<open>White space in the C locale: space, tab, newline, vertical tab, form feed, return.\<close>

definition isspace :: "char \<Rightarrow> bool" where
  "isspace c = (let n = (of_char c :: nat) in n = 32 \<or> (9 \<le> n \<and> n \<le> 13))"

text \<open>
  \<^verbatim>\<open>strlcpy (dst, src, n)\<close> with a signed \<open>n\<close>, which becomes a \<^verbatim>\<open>size_t\<close>: what is stored at the destination
  as a C string, \<^term>\<open>None\<close> for nothing at all.
\<close>

definition strlcpy :: "string \<Rightarrow> int \<Rightarrow> cstr" where
  "strlcpy src n = (if n = 0 then None else if n < 0 then Some src else Some (take (nat n - 1) src))"

text \<open>\<^verbatim>\<open>printf ("%s", p)\<close>; the GNU library prints a null pointer as \<open>(null)\<close>.\<close>

definition fmt_s :: "cstr \<Rightarrow> string" where
  "fmt_s p = (case p of None \<Rightarrow> ''(null)'' | Some t \<Rightarrow> t)"

text \<open>The position of the last occurrence of a character, as \<^verbatim>\<open>rfind\<close> and \<^verbatim>\<open>strrchr\<close> give it.\<close>

definition rfind :: "char \<Rightarrow> string \<Rightarrow> nat option" where
  "rfind c t = (if c \<in> set t
     then Some (length t - Suc (length (takeWhile (\<lambda>d. d \<noteq> c) (rev t)))) else None)"

lemma rfind_append_not_in [cstring_simps]:
  assumes "c \<notin> set ys"
  shows "rfind c (xs @ c # ys) = Some (length xs)"
proof -
  have "takeWhile (\<lambda>d. d \<noteq> c) (rev ys @ [c] @ rev xs) = rev ys"
    using assms by (subst takeWhile_append2) auto
  then show ?thesis by (simp add: rfind_def)
qed

lemma toupper_tolower [simp]: "toupper (toupper c) = toupper c"
  by (auto simp: toupper_def Let_def)

lemma toupper_map_idem [simp]: "map toupper (map toupper t) = map toupper t"
  by simp

lemma isspace_toupper [simp]: "isspace (toupper c) = isspace c"
  by (auto simp: isspace_def toupper_def Let_def)

lemma tolower_toupper [simp]: "tolower (toupper c) = tolower c"
  by (auto simp: tolower_def toupper_def Let_def)

lemma strcasecmp_eq_refl [simp]: "strcasecmp_eq a a"
  by (simp add: strcasecmp_eq_def)

lemma strcasecmp_eq_upper [simp]: "strcasecmp_eq (map toupper a) b = strcasecmp_eq a b"
  by (simp add: strcasecmp_eq_def comp_def)


section \<open>Numbers as text\<close>

text \<open>Decimal output of an unsigned integer, as \<^verbatim>\<open>std::ostream <<\<close> prints it.\<close>

definition digit :: "nat \<Rightarrow> char" where
  "digit d = char_of (48 + d)"

fun show_nat :: "nat \<Rightarrow> string" where
  "show_nat n = (if n < 10 then [digit n] else show_nat (n div 10) @ [digit (n mod 10)])"

declare show_nat.simps [simp del]

text \<open>\<^verbatim>\<open>sprintf (encoded, "%02x", b)\<close> for one byte.\<close>

definition hex_digit :: "nat \<Rightarrow> char" where
  "hex_digit d = (if d < 10 then char_of (48 + d) else char_of (87 + d))"

definition hex_byte :: "char \<Rightarrow> string" where
  "hex_byte b = (let n = (of_char b :: nat) in [hex_digit (n div 16), hex_digit (n mod 16)])"

definition unhex_digit :: "char \<Rightarrow> nat" where
  "unhex_digit c = (let n = (of_char c :: nat) in if n < 58 then n - 48 else n - 87)"

lemma unhex_hex_digit [simp]: "d < 16 \<Longrightarrow> unhex_digit (hex_digit d) = d"
  by (auto simp: unhex_digit_def hex_digit_def Let_def)

lemma of_char_less_256 [simp]: "(of_char c :: nat) < 256"
  by (metis of_char_mod_256 mod_less_divisor zero_less_numeral)

text \<open>A digit of either base is neither a colon, a null nor white space.\<close>

definition plain_char :: "char \<Rightarrow> bool" where
  "plain_char c \<longleftrightarrow> c \<noteq> NUL \<and> c \<noteq> CHR '':'' \<and> \<not> isspace c"

lemma char_of_neq_iff: "m < 256 \<Longrightarrow> (char_of (m :: nat) = c) \<longleftrightarrow> of_char c = m"
  by (metis char_of_char of_char_of mod_less)

lemma plain_digit [simp]: "d < 10 \<Longrightarrow> plain_char (digit d)"
  by (simp add: plain_char_def digit_def isspace_def Let_def char_of_neq_iff)

lemma plain_hex_digit [simp]: "d < 16 \<Longrightarrow> plain_char (hex_digit d)"
  by (auto simp: plain_char_def hex_digit_def isspace_def Let_def char_of_neq_iff)

lemma show_nat_plain: "list_all plain_char (show_nat n)"
  by (induction n rule: show_nat.induct) (subst show_nat.simps, auto)

lemma show_nat_nonempty [simp]: "show_nat n \<noteq> []"
  by (subst show_nat.simps) simp

lemma hex_byte_plain: "list_all plain_char (hex_byte b)"
  by (simp add: hex_byte_def Let_def less_mult_imp_div_less)


section \<open>Segments\<close>

definition segment :: "'a list \<Rightarrow> nat \<Rightarrow> nat \<Rightarrow> 'a list" where
  "segment xs off n = take n (drop off xs)"

lemma segment_0 [simp]: "segment xs off 0 = []"
  by (simp add: segment_def)

lemma length_segment [simp]: "length (segment xs off n) = min n (length xs - off)"
  by (simp add: segment_def)

lemma segment_beyond [simp]: "length xs \<le> off \<Longrightarrow> segment xs off n = []"
  by (simp add: segment_def)

lemma segment_append [segment_simps]:
  "segment xs off n @ segment xs (off + n) m = segment xs off (n + m)"
  by (simp add: segment_def take_add add.commute [of off n])

lemma segment_segment [segment_simps]: "segment (segment xs off n) i m = segment xs (off + i) (min m (n - i))"
  by (simp add: segment_def drop_take min_def add.commute)

lemma take_segment [segment_simps]: "take m (segment xs off n) = segment xs off (min m n)"
  by (simp add: segment_def)

lemma segment_all: "length xs - off \<le> n \<Longrightarrow> segment xs off n = drop off xs"
  by (simp add: segment_def)

lemma segment_min [segment_simps]: "segment xs off (min n (length xs - off)) = segment xs off n"
  by (simp add: segment_def min_def)

lemma nth_segment: "i < n \<Longrightarrow> off + i < length xs \<Longrightarrow> segment xs off n ! i = xs ! (off + i)"
  by (simp add: segment_def)

lemma div_add_small: "(a :: nat) mod c + b < c \<Longrightarrow> (a + b) div c = a div c"
proof -
  assume less: "a mod c + b < c"
  have "a + b = a div c * c + (a mod c + b)" by simp
  then have "(a + b) div c = (a div c * c + (a mod c + b)) div c" by (rule arg_cong)
  also have "\<dots> = a div c" using less by (subst div_mult_self3) auto
  finally show ?thesis .
qed

lemma div_add_fill: "(a :: nat) mod c + b = c \<Longrightarrow> 0 < c \<Longrightarrow> (a + b) div c = Suc (a div c)"
proof -
  assume eq: "a mod c + b = c" and c: "0 < c"
  have "a + b = a div c * c + (a mod c + b)" by simp
  with eq have "a + b = Suc (a div c) * c" by simp
  with c show ?thesis by (simp only: nonzero_mult_div_cancel_right)
qed

end
