(* ===== verification/Hdfs_Runtime.thy ===== *)
theory Hdfs_Runtime
  imports Hdfs_Prelude
begin

text \<open>
  The state the whole plugin runs on and the code around it that every component calls:
  the connection cache, the choice of the HDFS user, name translation and error reporting
  (\<^verbatim>\<open>src/src/XrdHdfs.cc\<close>, the anonymous namespace, \<^verbatim>\<open>GetRealPath\<close>, \<^verbatim>\<open>Lfn2Pfn\<close>, \<^verbatim>\<open>Emsg\<close>).

  Code that is not part of the repository is the parameter \<open>L\<close>, a record of functions: the calls
  of libhdfs (\<^verbatim>\<open>hdfs.h\<close>) and \<^verbatim>\<open>strerror\<close>.  A call takes the current \<open>errno\<close> and the world (the HDFS
  cluster, whatever it is) and gives its result, the new \<open>errno\<close> and the new world.  Nothing is
  assumed of them here; a theorem that needs a documented behaviour states it as a hypothesis.

  Allocation may fail: \<open>mem\<close> holds the outcomes of the coming allocations (an exhausted list
  means that they succeed).  \<open>live\<close> counts, per kind, the resources taken and not yet given
  back, so that leaks and double frees can be stated.  \<open>ub\<close> is set when the source performs an
  access that C++ leaves undefined; \<open>junk\<close> is what fresh memory happens to hold.  Log output is
  not modelled.
\<close>


section \<open>Data of libhdfs and XRootD that the plugin reads\<close>

text \<open>\<^verbatim>\<open>hdfsFS\<close> and \<^verbatim>\<open>hdfsFile\<close> are pointers to library objects; \<^term>\<open>None\<close> is the null pointer.\<close>

type_synonym hdfsFS = "nat option"
type_synonym hdfsFile = "nat option"

datatype tObjectKind = kObjectKindFile | kObjectKindDirectory

record hdfsFileInfo =
  mKind :: tObjectKind
  mName :: string
  mLastMod :: int
  mSize :: int
  mPermissions :: int

record stat =
  st_mode :: "32 word"
  st_nlink :: int
  st_uid :: int
  st_gid :: int
  st_size :: int
  st_mtime :: int
  st_atime :: int
  st_ctime :: int
  st_dev :: int
  st_ino :: int

text \<open>\<^verbatim>\<open>XrdOucErrInfo\<close>: the last error code and text.\<close>

record errinfo =
  ei_code :: int
  ei_text :: string

text \<open>
  The client of a request: \<^verbatim>\<open>secEnv()\<close> gives the security entity or null; of the entity the
  plugin reads the attribute \<open>request.name\<close> (\<^term>\<open>None\<close> when \<^verbatim>\<open>eaAPI->Get\<close> finds none) and the name.
\<close>

record secEntity =
  request_name :: "string option"
  sec_name :: cstr

record oucEnv =
  secEnv :: "secEntity option"

text \<open>A Name2Name plugin: logical name and buffer size to return code and buffer contents.\<close>

type_synonym n2n = "string \<Rightarrow> int \<Rightarrow> int \<times> bytes"

datatype resource = CString | FileInfo | OpenFile | ReadBuf | FileObj | CksState


section \<open>The parameter: libhdfs\<close>

type_synonym ('w, 'a) hcall = "int \<Rightarrow> 'w \<Rightarrow> 'a \<times> int \<times> 'w"

record 'w lib =
  hdfsConnectAsUserNewInstance :: "string \<Rightarrow> int \<Rightarrow> string \<Rightarrow> ('w, hdfsFS) hcall"
  hdfsListDirectory :: "hdfsFS \<Rightarrow> string \<Rightarrow> ('w, hdfsFileInfo list option \<times> int) hcall"
  hdfsOpenFile :: "hdfsFS \<Rightarrow> cstr \<Rightarrow> int \<Rightarrow> ('w, hdfsFile) hcall"
  hdfsCloseFile :: "hdfsFS \<Rightarrow> hdfsFile \<Rightarrow> ('w, int) hcall"
  hdfsPread :: "hdfsFS \<Rightarrow> hdfsFile \<Rightarrow> int \<Rightarrow> int \<Rightarrow> ('w, int \<times> bytes) hcall"
  hdfsWrite :: "hdfsFS \<Rightarrow> hdfsFile \<Rightarrow> bytes \<Rightarrow> int \<Rightarrow> ('w, int) hcall"
  hdfsGetPathInfo :: "hdfsFS \<Rightarrow> cstr \<Rightarrow> ('w, hdfsFileInfo option) hcall"
  hdfsExists :: "hdfsFS \<Rightarrow> string \<Rightarrow> ('w, int) hcall"
  hdfsDelete :: "hdfsFS \<Rightarrow> string \<Rightarrow> int \<Rightarrow> ('w, int) hcall"
  hdfsRename :: "hdfsFS \<Rightarrow> string \<Rightarrow> string \<Rightarrow> ('w, int) hcall"
  hdfsCreateDirectory :: "hdfsFS \<Rightarrow> string \<Rightarrow> ('w, int) hcall"
  hdfsChmod :: "hdfsFS \<Rightarrow> string \<Rightarrow> int \<Rightarrow> ('w, int) hcall"
  strerror :: "int \<Rightarrow> string option"
  Max_Error_Len :: nat


section \<open>The state of the plugin\<close>

record 'w sys =
  errno :: int
  mem :: "bool list"
  junk :: "nat \<Rightarrow> char"
  junk32 :: "32 word"
  live :: "resource \<Rightarrow> int"
  ub :: bool
  world :: 'w
  g_fs_map :: "string \<Rightarrow> nat option"
  m_cmsd_fs :: hdfsFS
  statbufs :: "nat \<Rightarrow> stat"
  N2N_Lib :: cstr
  N2N_Parms :: cstr
  the_N2N :: "n2n option"
  ConfigFN :: cstr
  sys_error :: errinfo
  g_hdfs_oss :: bool

text \<open>One call of the library.\<close>

definition run :: "('w, 'a) hcall \<Rightarrow> 'w sys \<Rightarrow> 'a \<times> 'w sys" where
  "run c s = (case c (errno s) (world s) of (r, e, w) \<Rightarrow> (r, s\<lparr>errno := e, world := w\<rparr>))"

definition acquire :: "resource \<Rightarrow> 'w sys \<Rightarrow> 'w sys" where
  "acquire r s = s\<lparr>live := (live s)(r := live s r + 1)\<rparr>"

definition release :: "resource \<Rightarrow> 'w sys \<Rightarrow> 'w sys" where
  "release r s = s\<lparr>live := (live s)(r := live s r - 1)\<rparr>"

text \<open>One allocation by \<^verbatim>\<open>malloc\<close> or \<^verbatim>\<open>strdup\<close>: whether it succeeded.\<close>

definition alloc :: "resource \<Rightarrow> 'w sys \<Rightarrow> bool \<times> 'w sys" where
  "alloc r s = (case mem s of
     [] \<Rightarrow> (True, acquire r s)
   | True # m \<Rightarrow> (True, acquire r (s\<lparr>mem := m\<rparr>))
   | False # m \<Rightarrow> (False, s\<lparr>mem := m, errno := ENOMEM\<rparr>))"

definition strdup :: "string \<Rightarrow> 'w sys \<Rightarrow> cstr \<times> 'w sys" where
  "strdup t s = (case alloc CString s of (ok, s1) \<Rightarrow> (if ok then Some t else None, s1))"

definition free_str :: "cstr \<Rightarrow> 'w sys \<Rightarrow> 'w sys" where
  "free_str p s = (case p of None \<Rightarrow> s | Some _ \<Rightarrow> release CString s)"

text \<open>The library calls that hand out or take back a resource.\<close>

definition open_file :: "'w lib \<Rightarrow> hdfsFS \<Rightarrow> cstr \<Rightarrow> int \<Rightarrow> 'w sys \<Rightarrow> hdfsFile \<times> 'w sys" where
  "open_file L fs path flags s = (case run (hdfsOpenFile L fs path flags) s of
     (None, s1) \<Rightarrow> (None, s1) | (Some h, s1) \<Rightarrow> (Some h, acquire OpenFile s1))"

definition close_file :: "'w lib \<Rightarrow> hdfsFS \<Rightarrow> hdfsFile \<Rightarrow> 'w sys \<Rightarrow> int \<times> 'w sys" where
  "close_file L fs h s = (case run (hdfsCloseFile L fs h) s of (r, s1) \<Rightarrow> (r, release OpenFile s1))"

definition path_info :: "'w lib \<Rightarrow> hdfsFS \<Rightarrow> cstr \<Rightarrow> 'w sys \<Rightarrow> hdfsFileInfo option \<times> 'w sys" where
  "path_info L fs path s = (case run (hdfsGetPathInfo L fs path) s of
     (None, s1) \<Rightarrow> (None, s1) | (Some i, s1) \<Rightarrow> (Some i, acquire FileInfo s1))"

definition free_info :: "'w sys \<Rightarrow> 'w sys" where
  "free_info s = release FileInfo s"


section \<open>Connections\<close>

text \<open>\<^verbatim>\<open>hadoop_connect (instance, port, username)\<close>, with \<^verbatim>\<open>REUSE_CONNECTION\<close> defined as in the source.\<close>

definition hadoop_connect_as :: "'w lib \<Rightarrow> string \<Rightarrow> int \<Rightarrow> string \<Rightarrow> 'w sys \<Rightarrow> hdfsFS \<times> 'w sys" where
  "hadoop_connect_as L inst port username s =
     (case g_fs_map s username of
        Some fs \<Rightarrow> (Some fs, s)
      | None \<Rightarrow>
          (case run (hdfsConnectAsUserNewInstance L inst port username) s of
             (None, s1) \<Rightarrow> (None, s1)
           | (Some fs, s1) \<Rightarrow> (Some fs, s1\<lparr>g_fs_map := (g_fs_map s1)(username := Some fs)\<rparr>)))"

text \<open>With \<^verbatim>\<open>REUSE_CONNECTION\<close> a connection is never closed.\<close>

definition hadoop_disconnect :: "hdfsFS \<Rightarrow> 'w sys \<Rightarrow> 'w sys" where
  "hadoop_disconnect fs s = s"

definition ExtractAuthName :: "oucEnv option \<Rightarrow> string" where
  "ExtractAuthName client =
     (case Option.bind client secEnv of
        Some sec \<Rightarrow>
          (case request_name sec of
             Some username \<Rightarrow>
               if 1 < length username then username
               else (case sec_name sec of Some n \<Rightarrow> n | None \<Rightarrow> ''nobody'')
           | None \<Rightarrow> (case sec_name sec of Some n \<Rightarrow> n | None \<Rightarrow> ''nobody''))
      | None \<Rightarrow> ''nobody'')"

definition hadoop_connect :: "'w lib \<Rightarrow> oucEnv option \<Rightarrow> 'w sys \<Rightarrow> hdfsFS \<times> 'w sys" where
  "hadoop_connect L client s =
     hadoop_connect_as L ''default'' 0 (c_str (ExtractAuthName client)) (s\<lparr>errno := 0\<rparr>)"


section \<open>Name translation\<close>

abbreviation XrdHdfsMAX_PATH_LEN :: int where "XrdHdfsMAX_PATH_LEN \<equiv> 1024"

text \<open>
  One call of \<^verbatim>\<open>lfn2pfn (path, buff, blen)\<close>.  Its contract is to fill a buffer of \<open>blen\<close> bytes with a C string, and to
  return an error when the name does not fit: an answer that is too long counts as that error, so no
  plugin writes past the buffer it was given.
\<close>

definition n2n_call :: "n2n \<Rightarrow> string \<Rightarrow> int \<Rightarrow> int \<times> bytes" where
  "n2n_call lfn2pfn path blen =
     (case lfn2pfn path blen of
        (rc, buf) \<Rightarrow> if rc = 0 \<and> blen \<le> int (length (c_str buf)) then (ENAMETOOLONG, buf) else (rc, buf))"

definition GetRealPath :: "string \<Rightarrow> 'w sys \<Rightarrow> cstr \<times> 'w sys" where
  "GetRealPath path s =
     (case the_N2N s of
        Some lfn2pfn \<Rightarrow>
          (case n2n_call lfn2pfn path (XrdHdfsMAX_PATH_LEN + 1) of
             (rc, actual_path) \<Rightarrow>
               if rc \<noteq> 0 then strdup path s else strdup (c_str actual_path) s)
      | None \<Rightarrow> strdup path s)"

text \<open>The path \<^const>\<open>GetRealPath\<close> duplicates.\<close>

definition real_path :: "'w sys \<Rightarrow> string \<Rightarrow> string" where
  "real_path s path =
     (case the_N2N s of
        Some lfn2pfn \<Rightarrow>
          (case n2n_call lfn2pfn path (XrdHdfsMAX_PATH_LEN + 1) of
             (rc, actual_path) \<Rightarrow> if rc \<noteq> 0 then path else c_str actual_path)
      | None \<Rightarrow> path)"

text \<open>\<^verbatim>\<open>Lfn2Pfn\<close>: return code and what the caller's buffer holds (\<^term>\<open>None\<close>: not written).\<close>

definition Lfn2Pfn :: "'w sys \<Rightarrow> string \<Rightarrow> int \<Rightarrow> int \<times> cstr" where
  "Lfn2Pfn s oldp blen =
     (case the_N2N s of
        Some lfn2pfn \<Rightarrow> (case n2n_call lfn2pfn oldp blen of (rc, buf) \<Rightarrow> (- rc, Some buf))
      | None \<Rightarrow> if blen \<le> int (length oldp) then (- ENAMETOOLONG, None) else (0, Some oldp))"

text \<open>The second overload: return code and the returned pointer's text, null on failure.\<close>

definition Lfn2Pfn_rc :: "'w sys \<Rightarrow> string \<Rightarrow> int \<Rightarrow> int \<times> cstr" where
  "Lfn2Pfn_rc s oldp blen =
     (case the_N2N s of
        None \<Rightarrow> (0, Some oldp)
      | Some lfn2pfn \<Rightarrow> (case n2n_call lfn2pfn oldp blen of
          (rc, buf) \<Rightarrow> if - rc \<noteq> 0 then (- rc, None) else (0, Some buf)))"


section \<open>Error reporting\<close>

text \<open>
  \<^verbatim>\<open>XrdHdfsSys::Emsg\<close>: the error object it fills, and the value it returns.  The value comes
  from \<open>errno\<close>, not from the code it was given.
\<close>

definition Emsg_info :: "'w lib \<Rightarrow> int \<Rightarrow> string \<Rightarrow> cstr \<Rightarrow> errinfo" where
  "Emsg_info L ecode opn target =
     (let ecode = (if ecode < 0 then - ecode else ecode);
          etext = (case strerror L ecode of
                     Some t \<Rightarrow> t
                   | None \<Rightarrow> ''reason unknown ('' @ show_nat (nat ecode) @ '')'')
      in \<lparr>ei_code = ecode,
          ei_text = take (Max_Error_Len L - 1)
            (''Unable to '' @ opn @ '' '' @ fmt_s target @ ''; '' @ etext)\<rparr>)"

definition Emsg_ret :: "'w sys \<Rightarrow> int" where
  "Emsg_ret s = (if errno s \<noteq> 0 then (if errno s > 0 then - errno s else errno s) else - 1)"

text \<open>\<^verbatim>\<open>Emsg\<close> on the file system object's own \<^verbatim>\<open>error\<close> member.\<close>

definition sys_Emsg :: "'w lib \<Rightarrow> int \<Rightarrow> string \<Rightarrow> cstr \<Rightarrow> 'w sys \<Rightarrow> int \<times> 'w sys" where
  "sys_Emsg L ecode opn target s = (Emsg_ret s, s\<lparr>sys_error := Emsg_info L ecode opn target\<rparr>)"


section \<open>Facts on the runtime\<close>

lemma run_fields:
  assumes "run c s = (r, s')"
  shows "s' = s\<lparr>errno := errno s', world := world s'\<rparr>"
  using assms by (auto simp: run_def split: prod.splits)

lemma live_acquire [simp]: "live (acquire r s) = (live s)(r := live s r + 1)"
  by (simp add: acquire_def)

lemma live_release [simp]: "live (release r s) = (live s)(r := live s r - 1)"
  by (simp add: release_def)

lemma resource_frame [simp]:
  "errno (acquire r s) = errno s" "mem (acquire r s) = mem s" "ub (acquire r s) = ub s"
  "world (acquire r s) = world s" "g_fs_map (acquire r s) = g_fs_map s" "the_N2N (acquire r s) = the_N2N s"
  "m_cmsd_fs (acquire r s) = m_cmsd_fs s" "statbufs (acquire r s) = statbufs s"
  "junk (acquire r s) = junk s" "junk32 (acquire r s) = junk32 s" "g_hdfs_oss (acquire r s) = g_hdfs_oss s"
  "errno (release r s) = errno s" "mem (release r s) = mem s" "ub (release r s) = ub s"
  "world (release r s) = world s" "g_fs_map (release r s) = g_fs_map s" "the_N2N (release r s) = the_N2N s"
  "m_cmsd_fs (release r s) = m_cmsd_fs s" "statbufs (release r s) = statbufs s"
  "junk (release r s) = junk s" "junk32 (release r s) = junk32 s" "g_hdfs_oss (release r s) = g_hdfs_oss s"
  by (simp_all add: acquire_def release_def)

text \<open>
  Each primitive changes few fields.  The equations below, one bundle per primitive, are what
  the proofs about the operations use.
\<close>

lemmas runtime_defs = run_def acquire_def release_def alloc_def strdup_def free_str_def
  open_file_def close_file_def path_info_def free_info_def

lemma Emsg_ret_negative: "Emsg_ret s < 0"
  by (simp add: Emsg_ret_def)

lemma Emsg_ret_le [simp]: "Emsg_ret s \<le> 0"
  by (simp add: Emsg_ret_def)

lemma Emsg_ret_nonzero: "Emsg_ret s \<noteq> 0"
  by (simp add: Emsg_ret_def)

lemma Emsg_ret_errno: "0 < errno s \<Longrightarrow> Emsg_ret s = - errno s"
  by (simp add: Emsg_ret_def)

lemma Emsg_ret_no_errno: "errno s = 0 \<Longrightarrow> Emsg_ret s = - 1"
  by (simp add: Emsg_ret_def)

lemma Emsg_ret_frame [simp]:
  "Emsg_ret (s\<lparr>sys_error := x\<rparr>) = Emsg_ret s"
  "Emsg_ret (s\<lparr>live := l\<rparr>) = Emsg_ret s"
  by (simp_all add: Emsg_ret_def)

lemma strdup_result:
  assumes "strdup t s = (p, s')"
  shows "p = None \<or> p = Some t"
  using assms by (auto simp: strdup_def alloc_def split: list.splits bool.splits prod.splits if_splits)

lemma strdup_live:
  assumes "strdup t s = (p, s')"
  shows "live (free_str p s') = live s"
  using assms
  by (auto simp: strdup_def alloc_def free_str_def fun_eq_iff
      split: list.splits bool.splits prod.splits if_splits)

lemma strdup_frame:
  assumes "strdup t s = (p, s')"
  shows "g_fs_map s' = g_fs_map s" "m_cmsd_fs s' = m_cmsd_fs s" "the_N2N s' = the_N2N s"
    "ub s' = ub s" "world s' = world s" "statbufs s' = statbufs s"
  using assms
  by (auto simp: strdup_def alloc_def acquire_def split: list.splits bool.splits prod.splits if_splits)

lemma GetRealPath_strdup: "GetRealPath path s = strdup (real_path s path) s"
  by (auto simp: GetRealPath_def real_path_def split: option.splits prod.splits)

lemma GetRealPath_ok: "mem s = [] \<Longrightarrow> GetRealPath path s = (Some (real_path s path), acquire CString s)"
  by (simp add: GetRealPath_strdup strdup_def alloc_def)

lemma live_free_str:
  "live (free_str p s) = (case p of None \<Rightarrow> live s | Some _ \<Rightarrow> (live s)(CString := live s CString - 1))"
  by (simp add: free_str_def split: option.splits)

lemma GetRealPath_live:
  assumes "GetRealPath path s = (p, s')" and "live s'' = live s'"
  shows "live (free_str p s'') = live s"
  using strdup_live [OF assms(1) [unfolded GetRealPath_strdup]] assms(2)
  by (simp add: live_free_str split: option.splits)

lemma GetRealPath_frame:
  assumes "GetRealPath path s = (p, s')"
  shows "g_fs_map s' = g_fs_map s" "m_cmsd_fs s' = m_cmsd_fs s" "the_N2N s' = the_N2N s"
    "ub s' = ub s" "world s' = world s" "statbufs s' = statbufs s"
  using strdup_frame [OF assms [unfolded GetRealPath_strdup]] by auto

lemma free_str_frame [simp]:
  "g_fs_map (free_str p s) = g_fs_map s" "m_cmsd_fs (free_str p s) = m_cmsd_fs s"
  "world (free_str p s) = world s" "errno (free_str p s) = errno s" "statbufs (free_str p s) = statbufs s"
  "ub (free_str p s) = ub s" "the_N2N (free_str p s) = the_N2N s"
  by (simp_all add: free_str_def release_def split: option.splits)

lemma hadoop_connect_as_fields:
  assumes "hadoop_connect_as L i port u s = (fs, s')"
  shows "s' = s\<lparr>errno := errno s', world := world s', g_fs_map := g_fs_map s'\<rparr>"
  using assms
  by (auto simp: hadoop_connect_as_def run_def split: option.splits prod.splits)

lemma hadoop_connect_fields:
  assumes "hadoop_connect L c s = (fs, s')"
  shows "s' = s\<lparr>errno := errno s', world := world s', g_fs_map := g_fs_map s'\<rparr>"
proof -
  from hadoop_connect_as_fields [OF assms [unfolded hadoop_connect_def]] show ?thesis
    by (rule trans) simp
qed

lemma hadoop_connect_frame:
  assumes "hadoop_connect L c s = (fs, s')"
  shows "live s' = live s" "mem s' = mem s" "ub s' = ub s" "the_N2N s' = the_N2N s"
    "statbufs s' = statbufs s" "m_cmsd_fs s' = m_cmsd_fs s" "sys_error s' = sys_error s"
    "junk s' = junk s" "junk32 s' = junk32 s" "g_hdfs_oss s' = g_hdfs_oss s"
  using assms
  by (auto simp: hadoop_connect_def hadoop_connect_as_def run_def split: option.splits prod.splits)


section \<open>The connection cache as a memo table\<close>

text \<open>
  What a client of the cache relies on: a present key is answered from the table and only
  \<open>touch\<close>es the state, a new value is recorded, a failure records nothing.
\<close>

locale memo_table =
  fixes tab :: "'s \<Rightarrow> 'k \<Rightarrow> 'v option"
    and fetch :: "'k \<Rightarrow> 's \<Rightarrow> 'v option \<times> 's"
    and touch :: "'s \<Rightarrow> 's"
  assumes fetch_hit: "tab s k = Some v \<Longrightarrow> fetch k s = (Some v, touch s)"
    and tab_touch: "tab (touch s) = tab s"
    and fetch_new: "tab s k = None \<Longrightarrow> fetch k s = (Some v, s') \<Longrightarrow> tab s' = (tab s)(k := Some v)"
    and fetch_fail: "tab s k = None \<Longrightarrow> fetch k s = (None, s') \<Longrightarrow> tab s' = tab s"
begin

lemma fetch_records: "fetch k s = (Some v, s') \<Longrightarrow> tab s' k = Some v"
  by (cases "tab s k") (auto simp: fetch_hit tab_touch dest: fetch_new)

lemma fetch_keeps:
  assumes "tab s k = Some v"
  shows "tab (snd (fetch k' s)) k = Some v"
proof (cases "tab s k'")
  case (Some v')
  with assms show ?thesis by (simp add: fetch_hit tab_touch)
next
  case None
  then show ?thesis
    using assms fetch_new [OF None] fetch_fail [OF None]
    by (cases "fetch k' s"; cases "fst (fetch k' s)") auto
qed

lemma fetches_keep:
  "tab s k = Some v \<Longrightarrow> tab (fold (\<lambda>k s. snd (fetch k s)) ks s) k = Some v"
  by (induction ks arbitrary: s) (auto intro: fetch_keeps)

lemma fetch_stable:
  assumes "fetch k s = (Some v, s')" and "t = fold (\<lambda>k s. snd (fetch k s)) ks s'"
  shows "fetch k t = (Some v, touch t)"
  unfolding assms(2) by (rule fetch_hit, rule fetches_keep, rule fetch_records, rule assms(1))

end

interpretation fs_cache: memo_table g_fs_map
  "\<lambda>u s. hadoop_connect_as L ''default'' 0 u (s\<lparr>errno := 0\<rparr>)" "\<lambda>s. s\<lparr>errno := 0\<rparr>"
  for L :: "'w lib"
  by unfold_locales (auto simp: hadoop_connect_as_def run_def split: option.splits prod.splits)

text \<open>
  C18. A connection is made once per user: after a successful connect for a client, and any
  sequence of connects for other clients, every client that resolves to the same user gets the
  same handle, without a library call (the world is untouched) and without a new cache entry.
\<close>

theorem connection_reused:
  assumes "hadoop_connect L c s = (Some fs, s1)"
    and "t = fold (\<lambda>c s. snd (hadoop_connect L c s)) cs s1"
    and "ExtractAuthName c' = ExtractAuthName c"
  shows "hadoop_connect L c' t = (Some fs, t\<lparr>errno := 0\<rparr>)"
proof -
  let ?us = "map (\<lambda>c. c_str (ExtractAuthName c)) cs"
  have "t = fold (\<lambda>u s. snd (hadoop_connect_as L ''default'' 0 u (s\<lparr>errno := 0\<rparr>))) ?us s1"
    unfolding assms(2) by (simp add: hadoop_connect_def fold_map comp_def)
  from fs_cache.fetch_stable [OF assms(1) [unfolded hadoop_connect_def] this] assms(3)
  show ?thesis by (simp add: hadoop_connect_def)
qed


section \<open>Whose connection it is\<close>

text \<open>
  \<open>connects_as L user\<close>: a handle belongs to one user, the one it was requested for, as
  \<^verbatim>\<open>hdfsConnectAsUserNewInstance\<close> documents.  \<open>conn_inv user s\<close>: every handle in the cache sits under
  its own user, and the handle kept for the cluster manager is the superuser's.
\<close>

definition connects_as :: "'w lib \<Rightarrow> (nat \<Rightarrow> string) \<Rightarrow> bool" where
  "connects_as L user \<longleftrightarrow>
     (\<forall>i port u e w p e' w'.
        hdfsConnectAsUserNewInstance L i port u e w = (Some p, e', w') \<longrightarrow> user p = u)"

definition conn_inv :: "(nat \<Rightarrow> string) \<Rightarrow> 'w sys \<Rightarrow> bool" where
  "conn_inv user s \<longleftrightarrow>
     (\<forall>u p. g_fs_map s u = Some p \<longrightarrow> user p = u) \<and>
     (\<forall>p. m_cmsd_fs s = Some p \<longrightarrow> user p = ''root'')"

lemma connects_asD:
  "connects_as L user \<Longrightarrow> hdfsConnectAsUserNewInstance L i port u e w = (Some p, e', w') \<Longrightarrow> user p = u"
  unfolding connects_as_def by blast

lemma conn_inv_cong:
  "g_fs_map s' = g_fs_map s \<Longrightarrow> m_cmsd_fs s' = m_cmsd_fs s \<Longrightarrow> conn_inv user s' = conn_inv user s"
  by (simp add: conn_inv_def)

lemma hadoop_connect_as_user:
  assumes "connects_as L user" "conn_inv user s" "hadoop_connect_as L i port u s = (fs, s')"
  shows "conn_inv user s' \<and> (\<forall>p. fs = Some p \<longrightarrow> user p = u)"
  using assms
  by (auto simp: hadoop_connect_as_def run_def conn_inv_def dest: connects_asD
      split: option.splits prod.splits if_splits)

lemma hadoop_connect_user:
  assumes "connects_as L user" "conn_inv user s" "hadoop_connect L c s = (fs, s')"
  shows "conn_inv user s' \<and> (\<forall>p. fs = Some p \<longrightarrow> user p = c_str (ExtractAuthName c))"
proof -
  have "conn_inv user (s\<lparr>errno := 0\<rparr>)"
    using assms(2) by (simp add: conn_inv_def)
  then show ?thesis
    using hadoop_connect_as_user [OF assms(1)] assms(3) unfolding hadoop_connect_def by blast
qed

end
