(* ===== verification/Hdfs_Memory.thy ===== *)
theory Hdfs_Memory
  imports Hdfs_Runtime
begin

text \<open>
  A concrete HDFS kept in memory, an instance of the library parameter: a table of files, the
  directories, the open handles, and a schedule that says how the coming calls of \<^verbatim>\<open>hdfsPread\<close> behave
  (0: interrupted, \<open>k\<close>: at most \<open>k\<close> bytes, no entry: as many as there are).  Three users can connect.
  It satisfies every contract that the theorems assume of libhdfs, and the concrete examples run on it.
\<close>

record mini =
  mini_files :: "(string \<times> bytes) list"
  mini_dirs :: "string list"
  mini_open :: "(nat \<times> string) list"
  mini_sched :: "nat list"

definition mini_put :: "string \<Rightarrow> bytes \<Rightarrow> mini \<Rightarrow> mini" where
  "mini_put p c w = w\<lparr>mini_files := (p, c) # filter (\<lambda>(q, _). q \<noteq> p) (mini_files w)\<rparr>"

definition mini_data :: "hdfsFile \<Rightarrow> mini \<Rightarrow> bytes option" where
  "mini_data h w = Option.bind h (\<lambda>n. Option.bind (map_of (mini_open w) n) (map_of (mini_files w)))"

definition mini_info :: "string \<Rightarrow> mini \<Rightarrow> hdfsFileInfo option" where
  "mini_info p w = (case map_of (mini_files w) p of
     Some c \<Rightarrow> Some \<lparr>mKind = kObjectKindFile, mName = p, mLastMod = 0, mSize = int (length c), mPermissions = 420\<rparr>
   | None \<Rightarrow> if p \<in> set (mini_dirs w)
       then Some \<lparr>mKind = kObjectKindDirectory, mName = p, mLastMod = 0, mSize = 0, mPermissions = 493\<rparr>
       else None)"

definition mini_connect :: "string \<Rightarrow> int \<Rightarrow> string \<Rightarrow> (mini, hdfsFS) hcall" where
  "mini_connect inst port u e w =
     (if u = ''root'' then (Some 1, e, w) else if u = ''nobody'' then (Some 2, e, w)
      else if u = ''alice'' then (Some 3, e, w) else (None, 13, w))"

definition mini_user :: "nat \<Rightarrow> string" where
  "mini_user p = (if p = 1 then ''root'' else if p = 2 then ''nobody'' else ''alice'')"

definition mini_list :: "hdfsFS \<Rightarrow> string \<Rightarrow> (mini, hdfsFileInfo list option \<times> int) hcall" where
  "mini_list fs p e w =
     (if p \<in> set (mini_dirs w)
      then let l = map (\<lambda>(q, c). \<lparr>mKind = kObjectKindFile, mName = q, mLastMod = 0,
                     mSize = int (length c), mPermissions = 420\<rparr>)
                 (filter (\<lambda>(q, _). take (Suc (length p)) q = p @ ''/'') (mini_files w))
           in ((Some l, int (length l)), e, w)
      else ((None, 0), ENOENT, w))"

definition mini_openFile :: "hdfsFS \<Rightarrow> cstr \<Rightarrow> int \<Rightarrow> (mini, hdfsFile) hcall" where
  "mini_openFile fs path flags e w =
     (case path of
        None \<Rightarrow> (None, EINVAL, w)
      | Some p \<Rightarrow>
          (let h = Suc (length (mini_open w)); w' = w\<lparr>mini_open := (h, p) # mini_open w\<rparr>
           in if flags = 0
              then (if map_of (mini_files w) p = None then (None, ENOENT, w) else (Some h, e, w'))
              else if p \<in> set (mini_dirs w) then (None, EISDIR, w)
              else (Some h, e, mini_put p [] w')))"

definition mini_pread :: "hdfsFS \<Rightarrow> hdfsFile \<Rightarrow> int \<Rightarrow> int \<Rightarrow> (mini, int \<times> bytes) hcall" where
  "mini_pread fs h pos len e w =
     (case mini_data h w of
        None \<Rightarrow> ((- 1, []), EBADF, w)
      | Some data \<Rightarrow>
          (case mini_sched w of
             [] \<Rightarrow> (let bs = segment data (nat pos) (nat len) in ((int (length bs), bs), e, w))
           | k # ks \<Rightarrow>
               (let w = w\<lparr>mini_sched := ks\<rparr>; bs = segment data (nat pos) (min k (nat len))
                in if k = 0 then ((- 1, []), EINTR, w) else ((int (length bs), bs), e, w))))"

definition mini_write :: "hdfsFS \<Rightarrow> hdfsFile \<Rightarrow> bytes \<Rightarrow> int \<Rightarrow> (mini, int) hcall" where
  "mini_write fs h bs len e w =
     (case Option.bind h (map_of (mini_open w)) of
        None \<Rightarrow> (- 1, EBADF, w)
      | Some p \<Rightarrow> if len < 0 then (- 1, EINVAL, w) else (len, e, mini_put p ((case map_of (mini_files w) p of None \<Rightarrow> [] | Some c \<Rightarrow> c) @ take (nat len) bs) w))"

definition mini_lib :: "mini lib" where
  "mini_lib = \<lparr>hdfsConnectAsUserNewInstance = mini_connect,
     hdfsListDirectory = mini_list,
     hdfsOpenFile = mini_openFile,
     hdfsCloseFile = (\<lambda>fs h e w. (0, e, w)),
     hdfsPread = mini_pread,
     hdfsWrite = mini_write,
     hdfsGetPathInfo = (\<lambda>fs p e w. case Option.bind p (\<lambda>p. mini_info p w) of
        None \<Rightarrow> (None, ENOENT, w) | Some i \<Rightarrow> (Some i, e, w)),
     hdfsExists = (\<lambda>fs p e w. if mini_info p w = None then (- 1, e, w) else (0, e, w)),
     hdfsDelete = (\<lambda>fs p r e w. if mini_info p w = None then (- 1, EIO, w)
        else (0, e, w\<lparr>mini_files := filter (\<lambda>(q, _). q \<noteq> p) (mini_files w),
                      mini_dirs := filter (\<lambda>q. q \<noteq> p) (mini_dirs w)\<rparr>)),
     hdfsRename = (\<lambda>fs p q e w. case map_of (mini_files w) p of
        None \<Rightarrow> (- 1, EIO, w)
      | Some c \<Rightarrow> (0, e, mini_put q c (w\<lparr>mini_files := filter (\<lambda>(q, _). q \<noteq> p) (mini_files w)\<rparr>))),
     hdfsCreateDirectory = (\<lambda>fs p e w. (0, e, w\<lparr>mini_dirs := p # mini_dirs w\<rparr>)),
     hdfsChmod = (\<lambda>fs p m e w. if mini_info p w = None then (- 1, ENOENT, w) else (0, e, w)),
     strerror = (\<lambda>_. Some ''error''),
     Max_Error_Len = 2048\<rparr>"

lemma mini_lib_fields [simp]:
  "hdfsConnectAsUserNewInstance mini_lib = mini_connect" "hdfsListDirectory mini_lib = mini_list"
  "hdfsOpenFile mini_lib = mini_openFile" "hdfsCloseFile mini_lib fs h e w = (0, e, w)"
  "hdfsPread mini_lib = mini_pread" "hdfsWrite mini_lib = mini_write"
  "hdfsGetPathInfo mini_lib fs p e w = (case Option.bind p (\<lambda>p. mini_info p w) of
     None \<Rightarrow> (None, ENOENT, w) | Some i \<Rightarrow> (Some i, e, w))"
  "hdfsExists mini_lib fs q e w = (if mini_info q w = None then (- 1, e, w) else (0, e, w))"
  "hdfsCreateDirectory mini_lib fs q e w = (0, e, w\<lparr>mini_dirs := q # mini_dirs w\<rparr>)"
  by (simp_all add: mini_lib_def)

definition mini_world :: mini where
  "mini_world = \<lparr>mini_files = [(''/d/a'', ''hello world''), (''/d/b'', ''x'')], mini_dirs = [''/d'', ''/d/''],
     mini_open = [], mini_sched = [0, 3, 0, 2]\<rparr>"

definition mini_sys :: "mini sys" where
  "mini_sys = \<lparr>errno = 0, mem = [], junk = (\<lambda>_. CHR ''?''), junk32 = 7, live = (\<lambda>_. 0), ub = False,
     world = mini_world, g_fs_map = (\<lambda>_. None), m_cmsd_fs = None,
     statbufs = (\<lambda>_. \<lparr>st_mode = 0, st_nlink = 0, st_uid = 0, st_gid = 0, st_size = 0, st_mtime = 0,
       st_atime = 0, st_ctime = 0, st_dev = 0, st_ino = 0\<rparr>),
     N2N_Lib = None, N2N_Parms = None, the_N2N = None, ConfigFN = None,
     sys_error = \<lparr>ei_code = 0, ei_text = []\<rparr>, g_hdfs_oss = True\<rparr>"

lemma mini_sys_fields [simp]:
  "errno mini_sys = 0" "mem mini_sys = []" "live mini_sys = (\<lambda>_. 0)" "ub mini_sys = False"
  "world mini_sys = mini_world" "g_fs_map mini_sys = (\<lambda>_. None)" "m_cmsd_fs mini_sys = None"
  "the_N2N mini_sys = None" "g_hdfs_oss mini_sys = True" "junk32 mini_sys = 7" "junk mini_sys = (\<lambda>_. CHR ''?'')"
  by (simp_all add: mini_sys_def)

definition alice :: oucEnv where
  "alice = \<lparr>secEnv = Some \<lparr>request_name = Some ''alice'', sec_name = None\<rparr>\<rparr>"

lemma ExtractAuthName_alice [simp]: "ExtractAuthName (Some alice) = ''alice''"
  by (simp add: ExtractAuthName_def alice_def)

lemma c_str_alice [simp]: "c_str ''alice'' = ''alice''"
  by (simp add: c_str_def)

lemma mini_connects: "connects_as mini_lib mini_user"
  by (auto simp: connects_as_def mini_lib_def mini_connect_def mini_user_def split: if_splits)

lemma mini_conn_inv: "conn_inv mini_user mini_sys"
  by (simp add: conn_inv_def)

lemma mini_hadoop_connect:
  "g_fs_map s = (\<lambda>_. None) \<Longrightarrow>
   hadoop_connect mini_lib (Some alice) s = (Some 3, s\<lparr>errno := 0, g_fs_map := (\<lambda>_. None)(''alice'' := Some 3)\<rparr>)"
  by (simp add: hadoop_connect_def hadoop_connect_as_def run_def mini_lib_def mini_connect_def)

theorem connection_reused_witness:
  "hadoop_connect mini_lib (Some alice)
     (snd (hadoop_connect mini_lib None (snd (hadoop_connect mini_lib (Some alice) mini_sys)))) =
   (Some 3, (snd (hadoop_connect mini_lib None (snd (hadoop_connect mini_lib (Some alice) mini_sys))))\<lparr>errno := 0\<rparr>)"
  using connection_reused [OF mini_hadoop_connect [OF mini_sys_fields(6)], of _ "[None]" "Some alice"]
    mini_hadoop_connect [OF mini_sys_fields(6)]
  by simp

end
