(* ===== verification/Hdfs_Namespace.thy ===== *)
theory Hdfs_Namespace
  imports Hdfs_Memory
begin

text \<open>
  The file system object \<^verbatim>\<open>XrdHdfsSys\<close>: \<^verbatim>\<open>Stat\<close>, \<^verbatim>\<open>Chmod\<close>, \<^verbatim>\<open>Mkdir\<close>, \<^verbatim>\<open>Remdir\<close>, \<^verbatim>\<open>Rename\<close>, \<^verbatim>\<open>Truncate\<close>, \<^verbatim>\<open>Unlink\<close>
  and \<^verbatim>\<open>Create\<close> (\<^verbatim>\<open>src/src/XrdHdfs.cc\<close>).  An operation takes the library, its arguments and the state, and
  gives its return code and the new state; the \<^verbatim>\<open>struct stat\<close> a caller passes is an address into
  \<open>statbufs\<close>.
\<close>


section \<open>Attributes\<close>

abbreviation S_IFDIR :: "32 word" where "S_IFDIR \<equiv> 0x4000"
abbreviation S_IFREG :: "32 word" where "S_IFREG \<equiv> 0x8000"

text \<open>The conversion that \<^verbatim>\<open>Stat\<close>, \<^verbatim>\<open>Fstat\<close> and \<^verbatim>\<open>Readdir\<close> each write out.\<close>

definition fill_stat :: "hdfsFileInfo \<Rightarrow> stat \<Rightarrow> stat" where
  "fill_stat i buf = buf\<lparr>
     st_mode := word_of_int (mPermissions i) OR
                (if mKind i = kObjectKindDirectory then S_IFDIR else S_IFREG),
     st_nlink := (if mKind i = kObjectKindDirectory then 0 else 1),
     st_uid := 1, st_gid := 1,
     st_size := (if mKind i = kObjectKindDirectory then 4096 else mSize i),
     st_mtime := mLastMod i, st_atime := mLastMod i, st_ctime := mLastMod i,
     st_dev := 0, st_ino := 1\<rparr>"

definition put_stat :: "nat \<Rightarrow> hdfsFileInfo \<Rightarrow> 'w sys \<Rightarrow> 'w sys" where
  "put_stat buf i s = s\<lparr>statbufs := (statbufs s)(buf := fill_stat i (statbufs s buf))\<rparr>"

text \<open>The connection \<^verbatim>\<open>Stat\<close> uses: the client's, or the one kept for the cluster manager.\<close>

definition stat_fs :: "'w lib \<Rightarrow> oucEnv option \<Rightarrow> 'w sys \<Rightarrow> hdfsFS \<times> 'w sys" where
  "stat_fs L client s =
     (case client of
        Some _ \<Rightarrow> hadoop_connect L client s
      | None \<Rightarrow>
          (case m_cmsd_fs s of
             Some p \<Rightarrow> (Some p, s)
           | None \<Rightarrow> (case hadoop_connect_as L ''default'' 0 ''root'' s of
               (fs, s) \<Rightarrow> (fs, s\<lparr>m_cmsd_fs := fs\<rparr>))))"

definition Stat :: "'w lib \<Rightarrow> string \<Rightarrow> nat \<Rightarrow> oucEnv option \<Rightarrow> 'w sys \<Rightarrow> int \<times> 'w sys" where
  "Stat L path buf client s =
     (let (fname, s) = GetRealPath path s;
          (retc, s) = (case fname of
             None \<Rightarrow> sys_Emsg L ENOMEM ''stat'' (Some path) s
           | Some _ \<Rightarrow> (XrdOssOK, s));
          (fs, s) = stat_fs L client s;
          (retc, s) = (case fs of
             None \<Rightarrow> sys_Emsg L EIO ''stat'' fname s
           | Some _ \<Rightarrow>
               (case path_info L fs fname s of
                  (None, s) \<Rightarrow> sys_Emsg L (errno s) ''stat'' fname s
                | (Some i, s) \<Rightarrow> (retc, free_info (put_stat buf i s))))
      in (retc, free_str fname (hadoop_disconnect fs s)))"


section \<open>Operations on a path\<close>

text \<open>
  The frame that \<^verbatim>\<open>Chmod\<close>, \<^verbatim>\<open>Mkdir\<close>, \<^verbatim>\<open>Remdir\<close>, \<^verbatim>\<open>Truncate\<close>, \<^verbatim>\<open>Unlink\<close> and \<^verbatim>\<open>Create\<close> share: translate the name,
  connect as the client, do the work, and at the label \<^verbatim>\<open>cleanup\<close> free the name.  A failure of the
  first two steps goes to the label at once.
\<close>

definition with_fs ::
  "'w lib \<Rightarrow> string \<Rightarrow> string \<Rightarrow> oucEnv option \<Rightarrow> (hdfsFS \<Rightarrow> string \<Rightarrow> 'w sys \<Rightarrow> int \<times> 'w sys)
     \<Rightarrow> 'w sys \<Rightarrow> int \<times> 'w sys" where
  "with_fs L opn req_path envp work s =
     (case GetRealPath req_path s of
        (None, s) \<Rightarrow> sys_Emsg L ENOMEM opn (Some req_path) s
      | (Some path, s) \<Rightarrow>
          (let (fs, s) = hadoop_connect L envp s;
               (retc, s) = (case fs of
                  None \<Rightarrow> sys_Emsg L EIO opn (Some path) s
                | Some _ \<Rightarrow> work fs path s)
           in (retc, free_str (Some path) (hadoop_disconnect fs s))))"

text \<open>The error code with a default: \<^verbatim>\<open>errno ? errno : e\<close>.\<close>

definition errno_or :: "int \<Rightarrow> 'w sys \<Rightarrow> int" where
  "errno_or e s = (if errno s \<noteq> 0 then errno s else e)"

text \<open>The work of an operation, between the connection and the label, and the operation.\<close>

type_synonym 'w path_work = "hdfsFS \<Rightarrow> string \<Rightarrow> 'w sys \<Rightarrow> int \<times> 'w sys"

definition chmod_work :: "'w lib \<Rightarrow> int \<Rightarrow> 'w path_work" where
  "chmod_work L mode fs fname s =
     (let (r, s) = run (hdfsChmod L fs fname mode) (s\<lparr>errno := 0\<rparr>)
      in if r = - 1 then sys_Emsg L (errno_or EIO s) ''chmod'' (Some fname) s else (XrdOssOK, s))"

definition Chmod :: "'w lib \<Rightarrow> string \<Rightarrow> int \<Rightarrow> oucEnv option \<Rightarrow> 'w sys \<Rightarrow> int \<times> 'w sys" where
  "Chmod L req_fname mode envp = with_fs L ''chmod'' req_fname envp (chmod_work L mode)"

text \<open>
  The loop of \<^verbatim>\<open>Mkdir\<close> that takes out trailing slashes: \<^term>\<open>None\<close> when it reaches the first character,
  where the source returns at once.
\<close>

fun mkdir_strip :: "string \<Rightarrow> string option" where
  "mkdir_strip path =
     (if length path \<le> 1 then None
      else if last path = CHR ''/'' then mkdir_strip (butlast path)
      else Some path)"

declare mkdir_strip.simps [simp del]

text \<open>The part of a path up to and including its last slash, if that is not the leading one.\<close>

definition mkdir_parent :: "string \<Rightarrow> string option" where
  "mkdir_parent path = (case rfind (CHR ''/'') path of
     None \<Rightarrow> None | Some i \<Rightarrow> if i = 0 then None else Some (take (Suc i) path))"

definition MKDIR_PERFORM_CHMOD :: bool where
  "MKDIR_PERFORM_CHMOD = False"

definition mkdir_chmod :: "'w lib \<Rightarrow> hdfsFS \<Rightarrow> string \<Rightarrow> int \<Rightarrow> 'w sys \<Rightarrow> int \<times> 'w sys" where
  "mkdir_chmod L fs path mode s =
     (case path_info L fs (Some path) (s\<lparr>errno := 0\<rparr>) of
        (None, s) \<Rightarrow> sys_Emsg L (errno_or ENOENT s) ''stat'' (Some path) s
      | (Some i, s) \<Rightarrow>
          (let s = (free_info s)\<lparr>errno := 0\<rparr>
           in if mPermissions i \<noteq> mode
              then let (r, s) = run (hdfsChmod L fs path mode) s
                   in if r = - 1 then sys_Emsg L (errno_or EIO s) ''chmod'' (Some path) s
                      else (XrdOssOK, s)
              else (XrdOssOK, s)))"

text \<open>From \<^verbatim>\<open>hdfsCreateDirectory\<close> on.\<close>

definition mkdir_create :: "'w lib \<Rightarrow> hdfsFS \<Rightarrow> string \<Rightarrow> int \<Rightarrow> 'w sys \<Rightarrow> int \<times> 'w sys" where
  "mkdir_create L fs path mode s =
     (let (r, s) = run (hdfsCreateDirectory L fs path) (s\<lparr>errno := 0\<rparr>)
      in if r = - 1 then sys_Emsg L (errno_or EIO s) ''mkdir'' (Some path) s
         else if MKDIR_PERFORM_CHMOD \<and> mode \<noteq> 0 then mkdir_chmod L fs path mode s
         else (XrdOssOK, s))"

text \<open>
  With \<^verbatim>\<open>mkpath\<close> zero and an empty path the first \<^verbatim>\<open>len--\<close> wraps around and the loop reads far out of
  the string.
\<close>

definition mkdir_work :: "'w lib \<Rightarrow> int \<Rightarrow> int \<Rightarrow> 'w path_work" where
  "mkdir_work L mode mkpath fs path s =
     (if mkpath \<noteq> 0 then mkdir_create L fs path mode s
      else if path = [] then (XrdOssOK, s\<lparr>ub := True\<rparr>)
      else (case mkdir_strip path of
         None \<Rightarrow> (XrdOssOK, s)
       | Some path \<Rightarrow>
           (case mkdir_parent path of
              None \<Rightarrow> mkdir_create L fs path mode s
            | Some parent \<Rightarrow>
                (let (retval, s) = run (hdfsExists L fs parent) (s\<lparr>errno := 0\<rparr>)
                 in if retval \<noteq> 0 then sys_Emsg L (errno_or ENOENT s) ''mkdir'' (Some path) s
                    else mkdir_create L fs path mode s))))"

definition Mkdir :: "'w lib \<Rightarrow> string \<Rightarrow> int \<Rightarrow> int \<Rightarrow> oucEnv option \<Rightarrow> 'w sys \<Rightarrow> int \<times> 'w sys" where
  "Mkdir L req_path mode mkpath envp =
     with_fs L ''mkdir'' req_path envp (mkdir_work L mode mkpath)"

definition remdir_work :: "'w lib \<Rightarrow> 'w path_work" where
  "remdir_work L fs path s =
     (let (r, s) = run (hdfsDelete L fs path 0) (s\<lparr>errno := 0\<rparr>)
      in if r = - 1 then sys_Emsg L (errno_or EIO s) ''rmdir'' (Some path) s else (XrdOssOK, s))"

definition Remdir :: "'w lib \<Rightarrow> string \<Rightarrow> oucEnv option \<Rightarrow> 'w sys \<Rightarrow> int \<times> 'w sys" where
  "Remdir L req_path envp = with_fs L ''rmdir'' req_path envp (remdir_work L)"

definition Rename :: "'w lib \<Rightarrow> string \<Rightarrow> string \<Rightarrow> oucEnv option \<Rightarrow> 'w sys \<Rightarrow> int \<times> 'w sys" where
  "Rename L req_src req_dest envp_src s =
     (case GetRealPath req_src s of
        (None, s) \<Rightarrow> sys_Emsg L ENOMEM ''rename'' (Some req_src) s
      | (Some src, s) \<Rightarrow>
          (case GetRealPath req_dest s of
             (None, s) \<Rightarrow>
               (let (retc, s) = sys_Emsg L ENOMEM ''rename'' (Some req_dest) s
                in (retc, free_str (Some src) s))
           | (Some dest, s) \<Rightarrow>
               (let (fs, s) = hadoop_connect L envp_src s;
                    (retc, s) = (case fs of
                       None \<Rightarrow> sys_Emsg L EIO ''rename'' (Some src) s
                     | Some _ \<Rightarrow>
                         (let (r, s) = run (hdfsRename L fs src dest) (s\<lparr>errno := 0\<rparr>)
                          in if r = - 1 then sys_Emsg L (errno_or EIO s) ''rmdir'' (Some src) s
                             else (XrdOssOK, s)))
                in (retc, free_str (Some dest) (free_str (Some src) (hadoop_disconnect fs s))))))"

text \<open>The new size is an argument of \<^verbatim>\<open>Truncate\<close> that its body does not use.\<close>

abbreviation (input) O_RDONLY :: int where "O_RDONLY \<equiv> 0"
abbreviation (input) O_WRONLY :: int where "O_WRONLY \<equiv> 1"
abbreviation (input) O_RDWR :: int where "O_RDWR \<equiv> 2"
abbreviation (input) O_TRUNC :: int where "O_TRUNC \<equiv> 512"

definition truncate_work :: "'w lib \<Rightarrow> nat \<Rightarrow> 'w path_work" where
  "truncate_work L newsize fs path s =
     (case open_file L fs (Some path) O_WRONLY (s\<lparr>errno := 0\<rparr>) of
        (None, s) \<Rightarrow> sys_Emsg L (errno s) ''truncate'' (Some path) s
      | (Some fp, s) \<Rightarrow> (XrdOssOK, snd (close_file L fs (Some fp) s)))"

definition Truncate :: "'w lib \<Rightarrow> string \<Rightarrow> nat \<Rightarrow> oucEnv option \<Rightarrow> 'w sys \<Rightarrow> int \<times> 'w sys" where
  "Truncate L req_path newsize envp =
     with_fs L ''truncate'' req_path envp (truncate_work L newsize)"

definition unlink_work :: "'w lib \<Rightarrow> 'w path_work" where
  "unlink_work L fs path s =
     (let (r, s) = run (hdfsDelete L fs path 0) (s\<lparr>errno := 0\<rparr>)
      in if r = - 1 then
           let s = (if errno s = EIO then
                      let (x, s) = run (hdfsExists L fs path) (s\<lparr>errno := 0\<rparr>)
                      in if x = - 1 \<and> errno s = 0 then s\<lparr>errno := ENOENT\<rparr> else s
                    else s)
           in sys_Emsg L (errno_or EIO s) ''unlink'' (Some path) s
         else (XrdOssOK, s))"

definition Unlink :: "'w lib \<Rightarrow> string \<Rightarrow> oucEnv option \<Rightarrow> 'w sys \<Rightarrow> int \<times> 'w sys" where
  "Unlink L req_path envp = with_fs L ''unlink'' req_path envp (unlink_work L)"

definition create_work :: "'w lib \<Rightarrow> int \<Rightarrow> 'w path_work" where
  "create_work L mode fs path s =
     (case open_file L fs (Some path) O_WRONLY (s\<lparr>errno := 0\<rparr>) of
        (None, s) \<Rightarrow> sys_Emsg L (errno s) ''create'' (Some path) s
      | (Some fp, s) \<Rightarrow>
          (let (r, s) = run (hdfsChmod L fs path mode) s;
               (retc, s) = (if r = - 1 then sys_Emsg L (errno_or EIO s) ''create'' (Some path) s
                            else (XrdOssOK, s))
           in (retc, snd (close_file L fs (Some fp) s))))"

definition Create :: "'w lib \<Rightarrow> string \<Rightarrow> int \<Rightarrow> oucEnv \<Rightarrow> 'w sys \<Rightarrow> int \<times> 'w sys" where
  "Create L req_path mode envp =
     with_fs L ''create'' req_path (Some envp) (create_work L mode)"


section \<open>The contract of a path operation\<close>

text \<open>
  What the shared frame needs of the work: it gives back what it took, its code is zero or
  negative, and it leaves the connections alone.  Every operation built on the frame then has the
  same three properties.
\<close>

locale path_work =
  fixes work :: "'w path_work"
  assumes work_live: "work fs path s = (r, s') \<Longrightarrow> live s' = live s"
    and work_code: "work fs path s = (r, s') \<Longrightarrow> r \<le> 0"
    and work_conn: "work fs path s = (r, s') \<Longrightarrow> g_fs_map s' = g_fs_map s \<and> m_cmsd_fs s' = m_cmsd_fs s"
begin

lemma op_live: "live (snd (with_fs L opn path env work s)) = live s"
proof -
  obtain p s1 where p: "GetRealPath path s = (p, s1)" by fastforce
  show ?thesis
  proof (cases p)
    case None
    then show ?thesis
      using GetRealPath_live [OF p refl] p by (simp add: with_fs_def sys_Emsg_def free_str_def)
  next
    case (Some f)
    obtain fs s2 where c: "hadoop_connect L env s1 = (fs, s2)" by fastforce
    note live2 = hadoop_connect_frame(1) [OF c]
    show ?thesis
      using Some p c live2
      by (auto simp: with_fs_def sys_Emsg_def hadoop_disconnect_def dest: work_live
          intro!: GetRealPath_live [OF p [unfolded Some]] split: option.splits prod.splits)
  qed
qed

lemma op_code: "fst (with_fs L opn path env work s) \<le> 0"
  by (auto simp: with_fs_def sys_Emsg_def Let_def dest: work_code split: option.splits prod.splits)

lemma op_conn_inv:
  assumes "connects_as L user" "conn_inv user s"
  shows "conn_inv user (snd (with_fs L opn path env work s))"
proof -
  obtain p s1 where p: "GetRealPath path s = (p, s1)" by fastforce
  obtain fs s2 where c: "hadoop_connect L env s1 = (fs, s2)" by fastforce
  have "conn_inv user s1"
    using assms(2) GetRealPath_frame [OF p] by (simp add: conn_inv_def)
  with hadoop_connect_user [OF assms(1) _ c] have "conn_inv user s1" "conn_inv user s2" by auto
  then show ?thesis
    using p c by (auto simp: with_fs_def sys_Emsg_def hadoop_disconnect_def conn_inv_def
        dest: work_conn split: option.splits prod.splits)
qed

end

lemmas work_defs = sys_Emsg_def run_def Let_def open_file_def close_file_def path_info_def free_info_def
  acquire_def release_def

interpretation chmod: path_work "chmod_work L mode" for L :: "'w lib" and mode
  by unfold_locales
    (auto simp: chmod_work_def work_defs split: prod.splits if_splits)

interpretation remdir: path_work "remdir_work L" for L :: "'w lib"
  by unfold_locales
    (auto simp: remdir_work_def work_defs split: prod.splits if_splits)

interpretation unlink: path_work "unlink_work L" for L :: "'w lib"
  by unfold_locales
    (auto simp: unlink_work_def work_defs split: prod.splits if_splits)

interpretation truncate: path_work "truncate_work L newsize" for L :: "'w lib" and newsize
  by unfold_locales
    (auto simp: truncate_work_def work_defs
      split: prod.splits if_splits option.splits)

interpretation create: path_work "create_work L mode" for L :: "'w lib" and mode
  by unfold_locales
    (auto simp: create_work_def work_defs
      split: prod.splits if_splits option.splits)

lemma mkdir_create_contract:
  assumes "mkdir_create L fs path mode s = (r, s')"
  shows "live s' = live s \<and> r \<le> 0 \<and> g_fs_map s' = g_fs_map s \<and> m_cmsd_fs s' = m_cmsd_fs s"
  using assms
  by (auto simp: mkdir_create_def MKDIR_PERFORM_CHMOD_def work_defs
      split: prod.splits if_splits)

interpretation mkdir: path_work "mkdir_work L mode mkpath" for L :: "'w lib" and mode mkpath
  by unfold_locales
    (auto simp: mkdir_work_def sys_Emsg_def run_def Let_def
      dest!: mkdir_create_contract split: prod.splits if_splits option.splits)

section \<open>Nothing leaks\<close>

lemma Rename_live: "live (snd (Rename L src dest env s)) = live s"
proof -
  obtain p s1 where p: "GetRealPath src s = (p, s1)" by fastforce
  obtain q s2 where q: "GetRealPath dest s1 = (q, s2)" by fastforce
  obtain fs s3 where c: "hadoop_connect L env s2 = (fs, s3)" by fastforce
  have two: "live (free_str q (free_str p s')) = live s" if "live s' = live s2" for s'
  proof -
    have "live (free_str q s') = live s1" by (rule GetRealPath_live [OF q that])
    from GetRealPath_live [OF p this] show ?thesis
      by (simp add: live_free_str split: option.splits)
  qed
  show ?thesis
  proof (cases p)
    case None
    then show ?thesis
      using GetRealPath_live [OF p refl] p by (simp add: Rename_def sys_Emsg_def free_str_def)
  next
    case P: (Some src')
    show ?thesis
    proof (cases q)
      case None
      then show ?thesis
        using GetRealPath_live [OF p, of s2] GetRealPath_live [OF q refl] p q P
        by (simp add: Rename_def sys_Emsg_def free_str_def)
    next
      case (Some dest')
      with p q P c hadoop_connect_frame(1) [OF c] show ?thesis
        by (auto simp: Rename_def sys_Emsg_def run_def hadoop_disconnect_def
            intro!: two [unfolded P Some] split: option.splits prod.splits)
    qed
  qed
qed

lemma stat_fs_frame:
  assumes "stat_fs L client s = (fs, s')"
  shows "live s' = live s" "ub s' = ub s" "statbufs s' = statbufs s" "mem s' = mem s" "the_N2N s' = the_N2N s"
  using assms
  by (auto simp: stat_fs_def hadoop_connect_def hadoop_connect_as_def run_def
      split: option.splits prod.splits)

lemma Stat_live: "live (snd (Stat L path buf client s)) = live s"
proof -
  obtain p s1 where p: "GetRealPath path s = (p, s1)" by fastforce
  define s2 where "s2 = (case p of None \<Rightarrow> snd (sys_Emsg L ENOMEM ''stat'' (Some path) s1) | Some _ \<Rightarrow> s1)"
  obtain fs s3 where c: "stat_fs L client s2 = (fs, s3)" by fastforce
  have "live s3 = live s1"
    using stat_fs_frame(1) [OF c] by (simp add: s2_def sys_Emsg_def split: option.splits)
  moreover note GetRealPath_live [OF p refl, unfolded live_free_str]
  ultimately show ?thesis
    using p c unfolding s2_def
    by (cases p) (auto simp: Stat_def sys_Emsg_def path_info_def free_info_def put_stat_def run_def
        acquire_def release_def hadoop_disconnect_def live_free_str split: option.splits prod.splits)
qed

text \<open>
  C7. No operation of the file system object leaks: on every path through it, failures of
  allocation, connection and of any library call included, each string, attribute record and
  file handle it took is given back exactly once.
\<close>

theorem operations_leak_nothing:
  "live (snd (Stat L path buf client s)) = live s \<and>
   live (snd (Chmod L path mode env s)) = live s \<and>
   live (snd (Mkdir L path mode mkpath env s)) = live s \<and>
   live (snd (Remdir L path env s)) = live s \<and>
   live (snd (Rename L path dest env s)) = live s \<and>
   live (snd (Truncate L path newsize env s)) = live s \<and>
   live (snd (Unlink L path env s)) = live s \<and>
   live (snd (Create L path mode cl s)) = live s"
  by (simp add: Stat_live Chmod_def chmod.op_live Mkdir_def mkdir.op_live Remdir_def remdir.op_live
      Rename_live Truncate_def truncate.op_live Unlink_def unlink.op_live Create_def create.op_live)


section \<open>Whose identity is used\<close>

text \<open>
  \<open>agree_for user u L L'\<close>: two libraries that connect alike and behave alike on the handles of user
  \<open>u\<close>, and may differ in any way on everybody else's.
\<close>

definition agree_for :: "(nat \<Rightarrow> string) \<Rightarrow> string \<Rightarrow> 'w lib \<Rightarrow> 'w lib \<Rightarrow> bool" where
  "agree_for user u L L' \<longleftrightarrow>
     hdfsConnectAsUserNewInstance L = hdfsConnectAsUserNewInstance L' \<and>
     strerror L = strerror L' \<and> Max_Error_Len L = Max_Error_Len L' \<and>
     (\<forall>p. user p = u \<longrightarrow>
        hdfsOpenFile L (Some p) = hdfsOpenFile L' (Some p) \<and>
        hdfsCloseFile L (Some p) = hdfsCloseFile L' (Some p) \<and>
        hdfsGetPathInfo L (Some p) = hdfsGetPathInfo L' (Some p) \<and>
        hdfsExists L (Some p) = hdfsExists L' (Some p) \<and>
        hdfsDelete L (Some p) = hdfsDelete L' (Some p) \<and>
        hdfsRename L (Some p) = hdfsRename L' (Some p) \<and>
        hdfsCreateDirectory L (Some p) = hdfsCreateDirectory L' (Some p) \<and>
        hdfsChmod L (Some p) = hdfsChmod L' (Some p))"

lemma agree_connect:
  assumes "agree_for user u L L'"
  shows "hadoop_connect L = hadoop_connect L'" "hadoop_connect_as L = hadoop_connect_as L'"
    "sys_Emsg L = sys_Emsg L'"
proof -
  have eqs: "hdfsConnectAsUserNewInstance L = hdfsConnectAsUserNewInstance L'"
    "strerror L = strerror L'" "Max_Error_Len L = Max_Error_Len L'"
    using assms by (simp_all add: agree_for_def)
  show as: "hadoop_connect_as L = hadoop_connect_as L'"
    by (intro ext) (simp only: hadoop_connect_as_def eqs)
  show "hadoop_connect L = hadoop_connect L'"
    by (intro ext) (simp only: hadoop_connect_def as)
  show "sys_Emsg L = sys_Emsg L'"
    by (intro ext) (simp only: sys_Emsg_def Emsg_info_def eqs)
qed

lemma with_fs_agree:
  assumes L: "agree_for user (c_str (ExtractAuthName env)) L L'" and "connects_as L user" "conn_inv user s"
    and work: "\<And>p path s. user p = c_str (ExtractAuthName env) \<Longrightarrow> work (Some p) path s = work' (Some p) path s"
  shows "with_fs L opn path env work s = with_fs L' opn path env work' s"
proof -
  obtain q s1 where q: "GetRealPath path s = (q, s1)" by fastforce
  obtain fs s2 where c: "hadoop_connect L env s1 = (fs, s2)" by fastforce
  have "conn_inv user s1"
    using assms(3) GetRealPath_frame [OF q] by (simp add: conn_inv_def)
  with hadoop_connect_user [OF assms(2) _ c]
  have "fs = Some p \<Longrightarrow> user p = c_str (ExtractAuthName env)" for p by blast
  with work q c show ?thesis
    unfolding with_fs_def agree_connect [OF L] by (auto split: option.splits)
qed

lemma works_agree:
  assumes "agree_for user u L L'" "user p = u"
  shows "chmod_work L mode (Some p) path s = chmod_work L' mode (Some p) path s"
    "mkdir_work L mode mkpath (Some p) path s = mkdir_work L' mode mkpath (Some p) path s"
    "remdir_work L (Some p) path s = remdir_work L' (Some p) path s"
    "truncate_work L newsize (Some p) path s = truncate_work L' newsize (Some p) path s"
    "unlink_work L (Some p) path s = unlink_work L' (Some p) path s"
    "create_work L mode (Some p) path s = create_work L' mode (Some p) path s"
proof -
  have calls: "hdfsOpenFile L (Some p) = hdfsOpenFile L' (Some p)"
    "hdfsCloseFile L (Some p) = hdfsCloseFile L' (Some p)"
    "hdfsGetPathInfo L (Some p) = hdfsGetPathInfo L' (Some p)"
    "hdfsExists L (Some p) = hdfsExists L' (Some p)"
    "hdfsDelete L (Some p) = hdfsDelete L' (Some p)"
    "hdfsCreateDirectory L (Some p) = hdfsCreateDirectory L' (Some p)"
    "hdfsChmod L (Some p) = hdfsChmod L' (Some p)"
    using assms by (simp_all add: agree_for_def)
  note eqs = calls agree_connect(3) [OF assms(1)] open_file_def close_file_def path_info_def
  show "chmod_work L mode (Some p) path s = chmod_work L' mode (Some p) path s"
    "remdir_work L (Some p) path s = remdir_work L' (Some p) path s"
    "truncate_work L newsize (Some p) path s = truncate_work L' newsize (Some p) path s"
    "unlink_work L (Some p) path s = unlink_work L' (Some p) path s"
    "create_work L mode (Some p) path s = create_work L' mode (Some p) path s"
    unfolding chmod_work_def remdir_work_def truncate_work_def unlink_work_def create_work_def eqs
    by (rule refl)+
  show "mkdir_work L mode mkpath (Some p) path s = mkdir_work L' mode mkpath (Some p) path s"
    unfolding mkdir_work_def mkdir_create_def mkdir_chmod_def eqs by (rule refl)
qed

lemma Rename_agree:
  assumes L: "agree_for user (c_str (ExtractAuthName env)) L L'" and "connects_as L user" "conn_inv user s"
  shows "Rename L src dest env s = Rename L' src dest env s"
proof -
  obtain p s1 where p: "GetRealPath src s = (p, s1)" by fastforce
  obtain q s2 where q: "GetRealPath dest s1 = (q, s2)" by fastforce
  obtain fs s3 where c: "hadoop_connect L env s2 = (fs, s3)" by fastforce
  have "conn_inv user s2"
    using assms(3) GetRealPath_frame [OF p] GetRealPath_frame [OF q] by (simp add: conn_inv_def)
  with hadoop_connect_user [OF assms(2) _ c]
  have "fs = Some p \<Longrightarrow> user p = c_str (ExtractAuthName env)" for p by blast
  then have "fs = Some p \<Longrightarrow> hdfsRename L fs = hdfsRename L' fs" for p
    using L by (auto simp: agree_for_def)
  with p q c show ?thesis
    unfolding Rename_def agree_connect [OF L] by (auto split: option.splits)
qed

text \<open>
  C6. An operation acts on HDFS with the identity of its client and no other: its result and its
  effect are the same for any two libraries that agree on the handles of that client's user,
  however they treat the handles of other users, whatever connections the cache holds.
\<close>

theorem operations_act_as_client:
  assumes "connects_as L user" and "conn_inv user s"
    and "agree_for user (c_str (ExtractAuthName env)) L L'"
  shows "Chmod L path mode env s = Chmod L' path mode env s \<and>
         Mkdir L path mode mkpath env s = Mkdir L' path mode mkpath env s \<and>
         Remdir L path env s = Remdir L' path env s \<and>
         Rename L path dest env s = Rename L' path dest env s \<and>
         Truncate L path newsize env s = Truncate L' path newsize env s \<and>
         Unlink L path env s = Unlink L' path env s \<and>
         (\<forall>cl. env = Some cl \<longrightarrow> Create L path mode cl s = Create L' path mode cl s)"
  unfolding Chmod_def Mkdir_def Remdir_def Truncate_def Unlink_def Create_def
  using with_fs_agree [OF assms(3,1,2)] works_agree [OF assms(3)] Rename_agree [OF assms(3,1,2)] by auto

text \<open>An example: a library that does as it likes with the superuser's handle.\<close>

definition rogue_lib :: "mini lib" where
  "rogue_lib = mini_lib\<lparr>hdfsDelete := (\<lambda>fs p r e w.
     if fs = Some 1 then (0, e, w\<lparr>mini_files := []\<rparr>) else hdfsDelete mini_lib fs p r e w)\<rparr>"

theorem operations_act_as_client_witness:
  "Remdir mini_lib ''/d'' (Some alice) mini_sys = Remdir rogue_lib ''/d'' (Some alice) mini_sys"
proof -
  have "agree_for mini_user ''alice'' mini_lib rogue_lib"
    by (auto simp: agree_for_def rogue_lib_def mini_user_def fun_eq_iff)
  then show ?thesis
    using operations_act_as_client [OF mini_connects mini_conn_inv, of "Some alice" rogue_lib "''/d''"] by simp
qed

text \<open>Only \<^verbatim>\<open>Stat\<close> has a second identity: without a client it is the superuser.\<close>

definition stat_user :: "oucEnv option \<Rightarrow> string" where
  "stat_user client = (case client of None \<Rightarrow> ''root'' | Some _ \<Rightarrow> c_str (ExtractAuthName client))"

lemma stat_fs_user:
  assumes "connects_as L user" "conn_inv user s" "stat_fs L client s = (fs, s')"
  shows "conn_inv user s' \<and> (\<forall>p. fs = Some p \<longrightarrow> user p = stat_user client)"
proof (cases client)
  case None
  show ?thesis
  proof (cases "m_cmsd_fs s")
    case (Some p)
    with None assms(2,3) show ?thesis by (auto simp: stat_fs_def stat_user_def conn_inv_def)
  next
    case N: None
    obtain fs' s1 where c: "hadoop_connect_as L ''default'' 0 ''root'' s = (fs', s1)" by fastforce
    with None N assms(3) have "fs = fs'" "s' = s1\<lparr>m_cmsd_fs := fs'\<rparr>" by (auto simp: stat_fs_def)
    with hadoop_connect_as_user [OF assms(1,2) c] None show ?thesis
      by (auto simp: stat_user_def conn_inv_def)
  qed
next
  case (Some c)
  with assms show ?thesis
    using hadoop_connect_user [OF assms(1,2)] by (simp add: stat_fs_def stat_user_def)
qed

lemma Stat_conn_inv:
  assumes "connects_as L user" "conn_inv user s"
  shows "conn_inv user (snd (Stat L path buf client s))"
proof -
  obtain p s1 where p: "GetRealPath path s = (p, s1)" by fastforce
  define s2 where "s2 = (case p of None \<Rightarrow> snd (sys_Emsg L ENOMEM ''stat'' (Some path) s1) | Some _ \<Rightarrow> s1)"
  obtain fs s3 where c: "stat_fs L client s2 = (fs, s3)" by fastforce
  have "conn_inv user s2"
    using assms(2) GetRealPath_frame [OF p]
    by (simp add: s2_def sys_Emsg_def conn_inv_def split: option.splits)
  with stat_fs_user [OF assms(1) _ c] have "conn_inv user s3" by blast
  then show ?thesis
    using p c unfolding s2_def
    by (auto simp: Stat_def sys_Emsg_def path_info_def free_info_def put_stat_def run_def acquire_def
        release_def hadoop_disconnect_def conn_inv_def split: option.splits prod.splits)
qed

lemma Rename_conn_inv:
  assumes "connects_as L user" "conn_inv user s"
  shows "conn_inv user (snd (Rename L src dest env s))"
proof -
  obtain p s1 where p: "GetRealPath src s = (p, s1)" by fastforce
  obtain q s2 where q: "GetRealPath dest s1 = (q, s2)" by fastforce
  obtain fs s3 where c: "hadoop_connect L env s2 = (fs, s3)" by fastforce
  have "conn_inv user s1" "conn_inv user s2"
    using assms(2) GetRealPath_frame [OF p] GetRealPath_frame [OF q] by (simp_all add: conn_inv_def)
  with hadoop_connect_user [OF assms(1) _ c] have "conn_inv user s1" "conn_inv user s2" "conn_inv user s3"
    by auto
  then show ?thesis
    using p q c
    by (auto simp: Rename_def sys_Emsg_def run_def hadoop_disconnect_def conn_inv_def
        split: option.splits prod.splits)
qed

text \<open>
  C8. Every operation keeps the connection table sound: each cached handle belongs to the user it is
  filed under, and the handle kept for calls without a client belongs to the superuser.
\<close>

theorem operations_keep_connections:
  assumes "connects_as L user" and "conn_inv user s"
  shows "conn_inv user (snd (Stat L path buf client s)) \<and>
         conn_inv user (snd (Chmod L path mode env s)) \<and>
         conn_inv user (snd (Mkdir L path mode mkpath env s)) \<and>
         conn_inv user (snd (Remdir L path env s)) \<and>
         conn_inv user (snd (Rename L path dest env s)) \<and>
         conn_inv user (snd (Truncate L path newsize env s)) \<and>
         conn_inv user (snd (Unlink L path env s)) \<and>
         conn_inv user (snd (Create L path mode cl s))"
  unfolding Chmod_def Mkdir_def Remdir_def Truncate_def Unlink_def Create_def
  by (simp add: chmod.op_conn_inv [OF assms] mkdir.op_conn_inv [OF assms] remdir.op_conn_inv [OF assms]
      truncate.op_conn_inv [OF assms] unlink.op_conn_inv [OF assms] create.op_conn_inv [OF assms]
      Stat_conn_inv [OF assms] Rename_conn_inv [OF assms])

theorem operations_keep_connections_witness:
  "conn_inv mini_user (snd (Stat mini_lib ''/d/a'' 0 None mini_sys))"
  using operations_keep_connections [OF mini_connects mini_conn_inv, of "''/d/a''" 0 None] by blast

section \<open>What the operations do\<close>

lemma with_fs_run:
  assumes "mem s = []" and "hadoop_connect L env (acquire CString s) = (Some fs, s1)"
  shows "with_fs L opn path env work s =
    (case work (Some fs) (real_path s path) s1 of (r, s2) \<Rightarrow> (r, release CString s2))"
  using assms
  by (simp add: with_fs_def GetRealPath_ok hadoop_disconnect_def free_str_def split: prod.splits)

lemma mkdir_strip_slashes:
  assumes "c \<noteq> CHR ''/''" "xs \<noteq> []"
  shows "mkdir_strip (xs @ c # replicate k (CHR ''/'')) = Some (xs @ [c])"
proof (induction k)
  case 0
  from assms have "\<not> length (xs @ [c]) \<le> 1" by (cases xs) auto
  with assms show ?case by (subst mkdir_strip.simps) simp
next
  case (Suc k)
  have "xs @ c # replicate (Suc k) (CHR ''/'') = (xs @ c # replicate k (CHR ''/'')) @ [CHR ''/'']"
    by (simp add: replicate_append_same)
  moreover have "\<not> length (xs @ c # replicate (Suc k) (CHR ''/'')) \<le> 1" by simp
  ultimately show ?case
    by (subst mkdir_strip.simps) (simp only: last_snoc butlast_snoc if_False simp_thms if_True Suc)
qed

lemma mkdir_parent_last:
  assumes "CHR ''/'' \<notin> set name" "dir \<noteq> []"
  shows "mkdir_parent (dir @ CHR ''/'' # name) = Some (dir @ [CHR ''/''])"
  using assms by (simp add: mkdir_parent_def rfind_append_not_in)

lemma mkdir_name_split:
  assumes "CHR ''/'' \<notin> set name" "name \<noteq> []" "dir \<noteq> []"
  shows "mkdir_strip (dir @ CHR ''/'' # name @ replicate k (CHR ''/'')) = Some (dir @ CHR ''/'' # name)"
proof -
  obtain n c where "name = n @ [c]" using assms(2) by (metis rev_exhaust)
  with assms mkdir_strip_slashes [of c "dir @ CHR ''/'' # n" k] show ?thesis by auto
qed

text \<open>
  C31. \<^verbatim>\<open>Mkdir\<close> without \<^verbatim>\<open>mkpath\<close> creates nothing below a missing directory.  For a path \<open>dir/name\<close>, with any
  number of trailing slashes, it asks HDFS for \<open>dir/\<close>; if that is not there, it reports failure and
  leaves HDFS as it was, and otherwise it creates \<open>dir/name\<close> exactly, without the slashes.
\<close>

theorem Mkdir_needs_parent:
  assumes "mem s = []" and "hadoop_connect L env (acquire CString s) = (Some fs, s1)"
    and "real_path s path = dir @ CHR ''/'' # name @ replicate k (CHR ''/'')"
    and "CHR ''/'' \<notin> set name" and "name \<noteq> []" and "dir \<noteq> []"
    and "hdfsExists L (Some fs) (dir @ [CHR ''/'']) 0 (world s1) = (r, e, w)"
    and "hdfsCreateDirectory L (Some fs) (dir @ CHR ''/'' # name) 0 w = (r', e', w')"
  shows "if r \<noteq> 0
         then fst (Mkdir L path mode 0 env s) < 0 \<and> world (snd (Mkdir L path mode 0 env s)) = w
         else (fst (Mkdir L path mode 0 env s) = 0 \<longleftrightarrow> r' \<noteq> - 1) \<and>
              world (snd (Mkdir L path mode 0 env s)) = w'"
  using assms(7,8)
  by (simp add: Emsg_ret_negative Emsg_ret_nonzero Mkdir_def with_fs_run [OF assms(1,2)] mkdir_work_def assms(3) mkdir_name_split [OF assms(4-6)]
      mkdir_parent_last [OF assms(4,6)] run_def sys_Emsg_def mkdir_create_def MKDIR_PERFORM_CHMOD_def
      release_def)

lemma mini_client:
  "mem mini_sys = []"
  "hadoop_connect mini_lib (Some alice) (acquire CString mini_sys) =
     (Some 3, (acquire CString mini_sys)\<lparr>errno := 0, g_fs_map := (\<lambda>_. None)(''alice'' := Some 3)\<rparr>)"
  by (simp_all add: mini_hadoop_connect)

theorem Mkdir_needs_parent_witness:
  "fst (Mkdir mini_lib ''/n/new//'' 0 0 (Some alice) mini_sys) < 0 \<and>
   world (snd (Mkdir mini_lib ''/n/new//'' 0 0 (Some alice) mini_sys)) = mini_world"
  using Mkdir_needs_parent [OF mini_client, of "''/n/new//''" "''/n''" "''new''" 2 "- 1" 0 mini_world
      0 0 "mini_world\<lparr>mini_dirs := ''/n/new'' # mini_dirs mini_world\<rparr>" 0]
  by (simp add: real_path_def numeral_2_eq_2 mini_lib_def mini_info_def mini_world_def)

text \<open>
  C32. The codes of \<^verbatim>\<open>Unlink\<close> when HDFS refuses the deletion with error \<open>e\<close>: the error itself, unless it
  is the unspecific \<open>EIO\<close>, in which case the existence of the file is looked up and a missing file is
  reported as \<open>ENOENT\<close>; in every case the code is negative.
\<close>

theorem Unlink_codes:
  assumes "mem s = []" and "hadoop_connect L env (acquire CString s) = (Some fs, s1)"
    and "hdfsDelete L (Some fs) (real_path s path) 0 0 (world s1) = (- 1, e, w)"
    and "hdfsExists L (Some fs) (real_path s path) 0 w = (x, e2, w2)"
  shows "fst (Unlink L path env s) =
     (if e = EIO then if x = - 1 \<and> e2 = 0 then - ENOENT else if e2 = 0 then - 1 else - \<bar>e2\<bar>
      else if e = 0 then - 1 else - \<bar>e\<bar>)"
  using assms(3,4)
  by (simp add: Unlink_def with_fs_run [OF assms(1,2)] unlink_work_def run_def sys_Emsg_def
      Emsg_ret_def Let_def)


theorem Unlink_codes_witness:
  "fst (Unlink mini_lib ''/d/c'' (Some alice) mini_sys) = - ENOENT"
  using Unlink_codes [OF mini_client, of "''/d/c''" EIO mini_world "- 1" 0 mini_world]
  by (simp add: real_path_def mini_lib_def mini_info_def mini_world_def)

end
