(* ===== verification/Hdfs_Directory.thy ===== *)
theory Hdfs_Directory
  imports Hdfs_Namespace
begin

text \<open>
  The class \<^verbatim>\<open>XrdHdfsDirectory\<close> (\<^verbatim>\<open>src/src/XrdHdfs.hh\<close>, \<^verbatim>\<open>src/src/XrdHdfs.cc\<close>): a directory object that is
  opened, read entry by entry and closed.  The object and the plugin's state are passed through
  the operations.  The member \<^verbatim>\<open>fs\<close>, which stays null because \<^verbatim>\<open>Opendir\<close> declares a local of that name,
  and the unused \<^verbatim>\<open>tident\<close> are left out.
\<close>

record XrdHdfsDirectory =
  d_error :: errinfo
  dh :: "hdfsFileInfo list option"
  numEntries :: int
  dirPos :: int
  d_fname :: cstr
  isopen :: bool
  m_stat_buf :: "nat option"

definition XrdHdfsDirectory_new :: XrdHdfsDirectory where
  "XrdHdfsDirectory_new = \<lparr>d_error = \<lparr>ei_code = 0, ei_text = []\<rparr>, dh = None, numEntries = 0,
     dirPos = 0, d_fname = None, isopen = False, m_stat_buf = None\<rparr>"

definition Opendir ::
  "'w lib \<Rightarrow> string \<Rightarrow> oucEnv \<Rightarrow> XrdHdfsDirectory \<Rightarrow> 'w sys \<Rightarrow> int \<times> XrdHdfsDirectory \<times> 'w sys" where
  "Opendir L dir_path client d s =
     (if isopen d then (- EINVAL, d, s)
      else (case hadoop_connect L (Some client) s of
         (None, s) \<Rightarrow>
           (Emsg_ret s, d\<lparr>d_error := Emsg_info L EIO ''open directory'' (d_fname d)\<rparr>, s)
       | (Some fs, s) \<Rightarrow>
           (case GetRealPath dir_path s of
              (None, s) \<Rightarrow> (- ENOMEM, d\<lparr>d_fname := None\<rparr>, s)
            | (Some fname, s) \<Rightarrow>
                (let ((h, n), s) = run (hdfsListDirectory L (Some fs) fname) (s\<lparr>errno := 0\<rparr>);
                     s = (case h of None \<Rightarrow> s | Some _ \<Rightarrow> acquire FileInfo s);
                     d = d\<lparr>d_fname := Some fname, dirPos := 0, dh := h, numEntries := n\<rparr>
                 in if h = None \<and> errno s \<noteq> 0
                    then (if errno s < 0 then - EIO else - errno s, d\<lparr>isopen := False\<rparr>, s)
                    else (XrdOssOK, d\<lparr>isopen := True\<rparr>, s)))))"

text \<open>
  The name \<^verbatim>\<open>Readdir\<close> hands out: \<^verbatim>\<open>full_name.erase (0, full_name.rfind ("/"))\<close>.  The slash stays; without a
  slash the position is \<^verbatim>\<open>npos\<close> and everything is erased.
\<close>

definition entry_name :: "string \<Rightarrow> string" where
  "entry_name full_name = (case rfind (CHR ''/'') full_name of None \<Rightarrow> [] | Some k \<Rightarrow> drop k full_name)"

text \<open>The second component of the result is what is stored in the caller's buffer.\<close>

definition Readdir ::
  "'w lib \<Rightarrow> int \<Rightarrow> XrdHdfsDirectory \<Rightarrow> 'w sys \<Rightarrow> int \<times> cstr \<times> XrdHdfsDirectory \<times> 'w sys" where
  "Readdir L blen d s =
     (if \<not> isopen d then (- EBADF, None, d, s)
      else if numEntries d \<le> dirPos d then (0, Some [], d, s)
      else (case dh d of
         None \<Rightarrow>
           (- EBADF, None, d\<lparr>d_error := Emsg_info L EBADF ''read directory'' (d_fname d)\<rparr>, s)
       | Some infos \<Rightarrow>
           (if length infos \<le> nat (dirPos d) then (XrdOssOK, None, d\<lparr>dirPos := dirPos d + 1\<rparr>, s\<lparr>ub := True\<rparr>)
            else let fileInfo = infos ! nat (dirPos d);
                     s = (case m_stat_buf d of None \<Rightarrow> s | Some a \<Rightarrow> put_stat a fileInfo s)
                 in (XrdOssOK, strlcpy (entry_name (mName fileInfo)) blen,
                     d\<lparr>dirPos := dirPos d + 1\<rparr>, s))))"

definition StatRet ::
  "'w lib \<Rightarrow> nat option \<Rightarrow> XrdHdfsDirectory \<Rightarrow> 'w sys \<Rightarrow> int \<times> XrdHdfsDirectory \<times> 'w sys" where
  "StatRet L buf d s =
     (if \<not> isopen d then (- EBADF, d, s)
      else if 0 < numEntries d \<and> dh d = None
      then (- EBADF, d\<lparr>d_error := Emsg_info L EBADF ''read directory'' (d_fname d)\<rparr>, s)
      else (XrdOssOK, d\<lparr>m_stat_buf := buf\<rparr>, s))"

definition free_listing :: "XrdHdfsDirectory \<Rightarrow> 'w sys \<Rightarrow> 'w sys" where
  "free_listing d s = (if dh d \<noteq> None \<and> 0 \<le> numEntries d then release FileInfo s else s)"

definition Closedir :: "XrdHdfsDirectory \<Rightarrow> 'w sys \<Rightarrow> int \<times> XrdHdfsDirectory \<times> 'w sys" where
  "Closedir d s =
     (if \<not> isopen d then (- EBADF, d, s)
      else (0, d\<lparr>d_fname := None, dh := None, numEntries := 0, dirPos := 0, isopen := False\<rparr>,
            free_str (d_fname d) (free_listing d s)))"

definition XrdHdfsDirectory_delete :: "XrdHdfsDirectory \<Rightarrow> 'w sys \<Rightarrow> 'w sys" where
  "XrdHdfsDirectory_delete d s = free_str (d_fname d) (hadoop_disconnect None (free_listing d s))"


section \<open>The object as a state machine\<close>

text \<open>What a caller may do to a directory object, in any order.\<close>

inductive dir_step :: "'w lib \<Rightarrow> XrdHdfsDirectory \<times> 'w sys \<Rightarrow> XrdHdfsDirectory \<times> 'w sys \<Rightarrow> bool"
  for L :: "'w lib" where
  opendir: "Opendir L path client d s = (r, d', s') \<Longrightarrow> dir_step L (d, s) (d', s')"
| readdir: "Readdir L blen d s = (r, buff, d', s') \<Longrightarrow> dir_step L (d, s) (d', s')"
| statret: "StatRet L buf d s = (r, d', s') \<Longrightarrow> dir_step L (d, s) (d', s')"
| closedir: "Closedir d s = (r, d', s') \<Longrightarrow> dir_step L (d, s) (d', s')"

inductive_cases dir_stepE: "dir_step L (d, s) (d', s')"

inductive dir_reach :: "'w lib \<Rightarrow> 'w sys \<Rightarrow> XrdHdfsDirectory \<times> 'w sys \<Rightarrow> bool"
  for L :: "'w lib" and s0 :: "'w sys" where
  new: "dir_reach L s0 (XrdHdfsDirectory_new, s0)"
| step: "dir_reach L s0 c \<Longrightarrow> dir_step L c c' \<Longrightarrow> dir_reach L s0 c'"

text \<open>
  What \<^verbatim>\<open>hdfsListDirectory\<close> documents: the count is the length of the array, and null without an error
  is an empty directory.
\<close>

definition lists_counted :: "'w lib \<Rightarrow> bool" where
  "lists_counted L \<longleftrightarrow>
     (\<forall>fs path e w h n e' w'. hdfsListDirectory L fs path e w = ((h, n), e', w') \<longrightarrow>
        (case h of Some l \<Rightarrow> n = int (length l) | None \<Rightarrow> e' = 0 \<longrightarrow> n = 0))"

text \<open>
  The invariant: a closed object holds no listing, an open one has its count right and its position
  within it; the listing is the only attribute array the object keeps.
\<close>

definition dir_inv :: "'w sys \<Rightarrow> XrdHdfsDirectory \<times> 'w sys \<Rightarrow> bool" where
  "dir_inv s0 = (\<lambda>(d, s).
     (if isopen d
      then 0 \<le> dirPos d \<and> numEntries d = (case dh d of None \<Rightarrow> 0 | Some l \<Rightarrow> int (length l))
      else dh d = None) \<and>
     live s FileInfo = live s0 FileInfo + (if dh d = None then 0 else 1) \<and>
     ub s = ub s0)"

lemma lists_countedD:
  assumes "lists_counted L" "hdfsListDirectory L fs path e w = ((h, n), e', w')"
  shows "h = Some l \<Longrightarrow> n = int (length l)" "h = None \<Longrightarrow> e' = 0 \<Longrightarrow> n = 0"
proof -
  have "case h of Some l \<Rightarrow> n = int (length l) | None \<Rightarrow> e' = 0 \<longrightarrow> n = 0"
    using assms unfolding lists_counted_def by blast
  then show "h = Some l \<Longrightarrow> n = int (length l)" "h = None \<Longrightarrow> e' = 0 \<Longrightarrow> n = 0" by auto
qed

lemma strdup_FileInfo: "GetRealPath path s = (p, s') \<Longrightarrow> live s' FileInfo = live s FileInfo"
  by (auto simp: GetRealPath_strdup strdup_def alloc_def split: list.splits bool.splits prod.splits if_splits)

lemma dir_inv_Opendir:
  assumes "lists_counted L" "dir_inv s0 (d, s)" "Opendir L path client d s = (r, d', s')"
  shows "dir_inv s0 (d', s')"
proof (cases "isopen d")
  case True
  with assms show ?thesis by (simp add: Opendir_def)
next
  case False
  obtain fs s1 where c: "hadoop_connect L (Some client) s = (fs, s1)" by fastforce
  obtain p s2 where p: "GetRealPath path s1 = (p, s2)" by fastforce
  have s2: "live s2 FileInfo = live s0 FileInfo" "live s1 FileInfo = live s0 FileInfo"
    "ub s1 = ub s0" "ub s2 = ub s0"
    using False assms(2) hadoop_connect_frame [OF c] strdup_FileInfo [OF p] GetRealPath_frame [OF p]
    by (auto simp: dir_inv_def)
  show ?thesis
    using False assms c p s2 lists_countedD [OF assms(1)]
    by (auto simp: Opendir_def dir_inv_def run_def acquire_def Let_def
        split: option.splits prod.splits if_splits)
qed

lemma dir_inv_Readdir:
  assumes "dir_inv s0 (d, s)" "Readdir L blen d s = (r, buff, d', s')"
  shows "dir_inv s0 (d', s')"
  using assms
  by (auto simp: Readdir_def dir_inv_def put_stat_def Let_def split: option.splits if_splits)

lemma dir_inv_StatRet:
  assumes "dir_inv s0 (d, s)" "StatRet L buf d s = (r, d', s')"
  shows "dir_inv s0 (d', s')"
  using assms by (auto simp: StatRet_def dir_inv_def split: if_splits)

lemma dir_inv_Closedir:
  assumes "dir_inv s0 (d, s)" "Closedir d s = (r, d', s')"
  shows "dir_inv s0 (d', s')"
  using assms
  by (auto simp: Closedir_def dir_inv_def free_listing_def live_free_str split: option.splits if_splits)

lemma dir_reach_inv:
  assumes "lists_counted L" "dir_reach L s0 c"
  shows "dir_inv s0 c"
  using assms(2)
proof (induction rule: dir_reach.induct)
  case new
  show ?case by (simp add: dir_inv_def XrdHdfsDirectory_new_def)
next
  case (step c c')
  then obtain d s d' s' where "c = (d, s)" "c' = (d', s')" by (metis surj_pair)
  with step show ?case
    by (auto elim!: dir_stepE intro: dir_inv_Opendir [OF assms(1)] dir_inv_Readdir dir_inv_StatRet
        dir_inv_Closedir)
qed

text \<open>
  C20. However a directory object is used, it never reads outside the listing and never leaks or
  frees a listing twice: in every reachable state undefined behaviour has not occurred, and once the
  object is destroyed there are as many attribute arrays as before it was made.
\<close>

theorem directory_memory_safe:
  assumes "lists_counted L" and "dir_reach L s0 (d, s)"
  shows "ub s = ub s0 \<and> live (XrdHdfsDirectory_delete d s) FileInfo = live s0 FileInfo"
proof -
  have "dir_inv s0 (d, s)" by (rule dir_reach_inv) fact+
  then show ?thesis
    by (auto simp: dir_inv_def XrdHdfsDirectory_delete_def hadoop_disconnect_def free_listing_def
        live_free_str split: if_splits option.splits)
qed


section \<open>Listing a directory\<close>

text \<open>What a caller sees from \<open>n\<close> successive calls of \<^verbatim>\<open>Readdir\<close>: codes and buffer contents.\<close>

fun readdirs :: "'w lib \<Rightarrow> int \<Rightarrow> nat \<Rightarrow> XrdHdfsDirectory \<Rightarrow> 'w sys \<Rightarrow> (int \<times> cstr) list" where
  "readdirs L blen 0 d s = []"
| "readdirs L blen (Suc n) d s =
     (case Readdir L blen d s of (r, buff, d', s') \<Rightarrow> (r, buff) # readdirs L blen n d' s')"

lemma readdirs_eof:
  assumes "isopen d" "numEntries d \<le> dirPos d"
  shows "readdirs L blen n d s = replicate n (0, Some [])"
  using assms by (induction n) (simp_all add: Readdir_def)

lemma readdirs_entries:
  assumes "isopen d" "dh d = Some infos" "numEntries d = int (length infos)"
    "dirPos d = int k" "k \<le> length infos"
  shows "readdirs L blen (length infos - k + n) d s =
     map (\<lambda>i. (XrdOssOK, strlcpy (entry_name (mName i)) blen)) (drop k infos) @ replicate n (0, Some [])"
  using assms
proof (induction "length infos - k" arbitrary: d k s)
  case 0
  then show ?case by (simp add: readdirs_eof)
next
  case (Suc m)
  let ?i = "infos ! k"
  let ?s = "case m_stat_buf d of None \<Rightarrow> s | Some a \<Rightarrow> put_stat a ?i s"
  have k: "k < length infos" using Suc.hyps(2) by linarith
  have rd: "Readdir L blen d s =
      (XrdOssOK, strlcpy (entry_name (mName ?i)) blen, d\<lparr>dirPos := int (Suc k)\<rparr>, ?s)"
    using k Suc.prems by (simp add: Readdir_def Let_def add.commute)
  have IH: "readdirs L blen (length infos - Suc k + n) (d\<lparr>dirPos := int (Suc k)\<rparr>) ?s =
      map (\<lambda>i. (XrdOssOK, strlcpy (entry_name (mName i)) blen)) (drop (Suc k) infos)
        @ replicate n (0, Some [])"
    using k Suc.hyps(2) Suc.prems by (intro Suc.hyps(1)) simp_all
  have "length infos - k + n = Suc (length infos - Suc k + n)" using k by simp
  moreover have "drop k infos = ?i # drop (Suc k) infos" using k by (simp add: Cons_nth_drop_Suc)
  ultimately show ?case
    by (simp only: readdirs.simps rd prod.case IH list.map append_Cons)
qed

lemma entry_name_nonempty: "CHR ''/'' \<in> set full \<Longrightarrow> entry_name full \<noteq> []"
proof -
  assume "CHR ''/'' \<in> set full"
  then obtain xs ys where "full = xs @ CHR ''/'' # ys" "CHR ''/'' \<notin> set ys"
    by (meson split_list_last)
  then show ?thesis by (simp add: entry_name_def rfind_append_not_in)
qed

lemma Opendir_listing:
  assumes "Opendir L path client d s = (XrdOssOK, d', s')" and "\<not> isopen d" and "lists_counted L"
  shows "isopen d' \<and> dirPos d' = 0 \<and>
    numEntries d' = (case dh d' of None \<Rightarrow> 0 | Some l \<Rightarrow> int (length l))"
  using assms
  by (auto simp: Opendir_def run_def Let_def Emsg_ret_nonzero dest: lists_countedD [OF assms(3)]
      split: option.splits prod.splits if_splits)

text \<open>
  C19. A directory that was opened is listed completely and in order: successive calls of \<^verbatim>\<open>Readdir\<close>
  give the name of every entry of the listing once, with code 0, and from then on the end marker, an
  empty name, for ever.  With room for two characters and HDFS's names, which are full paths, no
  entry looks like the end marker.
\<close>

theorem Readdir_lists_all:
  assumes "lists_counted L" and "\<not> isopen d0"
    and "Opendir L path client d0 s0 = (XrdOssOK, d, s)"
    and "entries = (case dh d of None \<Rightarrow> [] | Some l \<Rightarrow> l)"
  shows "readdirs L blen (length entries + n) d s =
           map (\<lambda>i. (XrdOssOK, strlcpy (entry_name (mName i)) blen)) entries @ replicate n (0, Some []) \<and>
         (2 \<le> blen \<longrightarrow> (\<forall>i \<in> set entries. CHR ''/'' \<in> set (mName i) \<longrightarrow>
            strlcpy (entry_name (mName i)) blen \<noteq> Some []))"
proof -
  have d: "isopen d" "dirPos d = 0"
    "numEntries d = (case dh d of None \<Rightarrow> 0 | Some l \<Rightarrow> int (length l))"
    using Opendir_listing [OF assms(3,2,1)] by auto
  have "readdirs L blen (length entries + n) d s =
      map (\<lambda>i. (XrdOssOK, strlcpy (entry_name (mName i)) blen)) entries @ replicate n (0, Some [])"
    using d assms(4) readdirs_entries [of d entries 0 L blen n s]
    by (auto simp: readdirs_eof split: option.splits)
  moreover have "strlcpy (entry_name (mName i)) blen \<noteq> Some []"
    if "2 \<le> blen" "CHR ''/'' \<in> set (mName i)" for i
    using that entry_name_nonempty [OF that(2)] by (auto simp: strlcpy_def)
  ultimately show ?thesis by blast
qed

text \<open>
  C28. The protocol of the object: a second \<^verbatim>\<open>Opendir\<close> is refused with \<open>EINVAL\<close>, and every other
  operation on an object that is not open with \<open>EBADF\<close>; a refused call changes nothing, neither the
  object nor HDFS.  \<^verbatim>\<open>Close\<close> makes an open object closed.  The refusal shows in the return value only: the
  error member of the object stays as it was, so the comment of \<^verbatim>\<open>Readdir\<close>, that \<^verbatim>\<open>getErrorInfo\<close> gives a code
  other than zero after an error, does not hold of it.
\<close>

theorem directory_protocol:
  "(isopen d \<longrightarrow> Opendir L path client d s = (- EINVAL, d, s)) \<and>
   (\<not> isopen d \<longrightarrow> Readdir L blen d s = (- EBADF, None, d, s)) \<and>
   (\<not> isopen d \<longrightarrow> StatRet L buf d s = (- EBADF, d, s)) \<and>
   (\<not> isopen d \<longrightarrow> Closedir d s = (- EBADF, d, s)) \<and>
   (isopen d \<longrightarrow> fst (Closedir d s) = 0 \<and> \<not> isopen (fst (snd (Closedir d s))) \<and>
      world (snd (snd (Closedir d s))) = world s)"
  by (simp add: Opendir_def Readdir_def StatRet_def Closedir_def free_listing_def)


lemma mini_lists_counted: "lists_counted mini_lib"
  by (auto simp: lists_counted_def mini_lib_def mini_list_def Let_def split: if_splits)

text \<open>Alice lists a directory of two files.\<close>

definition alice_dir :: "XrdHdfsDirectory \<times> mini sys" where
  "alice_dir = snd (Opendir mini_lib ''/d'' alice XrdHdfsDirectory_new mini_sys)"

lemma alice_dir_open:
  "Opendir mini_lib ''/d'' alice XrdHdfsDirectory_new mini_sys = (XrdOssOK, fst alice_dir, snd alice_dir)"
  "\<not> isopen XrdHdfsDirectory_new"
  "map_option (map mName) (dh (fst alice_dir)) = Some [''/d/a'', ''/d/b'']"
  by (simp_all add: alice_dir_def Opendir_def XrdHdfsDirectory_new_def mini_hadoop_connect GetRealPath_ok
      real_path_def run_def mini_list_def mini_world_def Let_def)

theorem directory_memory_safe_witness:
  "live (XrdHdfsDirectory_delete (fst alice_dir) (snd alice_dir)) FileInfo = 0"
proof -
  have "dir_reach mini_lib mini_sys (fst alice_dir, snd alice_dir)"
    by (rule dir_reach.step [OF dir_reach.new], rule dir_step.opendir [OF alice_dir_open(1)])
  from directory_memory_safe [OF mini_lists_counted this] show ?thesis by simp
qed

theorem Readdir_lists_all_witness:
  "readdirs mini_lib 64 3 (fst alice_dir) (snd alice_dir) =
     [(0, Some ''/a''), (0, Some ''/b''), (0, Some [])]"
proof -
  obtain l where l: "dh (fst alice_dir) = Some l" "map mName l = [''/d/a'', ''/d/b'']"
    using alice_dir_open(3) by (cases "dh (fst alice_dir)") auto
  then obtain a b where ab: "l = [a, b]" "mName a = ''/d/a''" "mName b = ''/d/b''" by auto
  have "readdirs mini_lib 64 (length l + 1) (fst alice_dir) (snd alice_dir) =
      map (\<lambda>i. (XrdOssOK, strlcpy (entry_name (mName i)) 64)) l @ replicate 1 (0, Some [])"
    using Readdir_lists_all [OF mini_lists_counted alice_dir_open(2,1), of l 64 1] l(1) by simp
  then show ?thesis
    by (simp add: ab entry_name_def rfind_def strlcpy_def numeral_3_eq_3)
qed

theorem directory_protocol_witness:
  "Readdir mini_lib 64 XrdHdfsDirectory_new mini_sys = (- EBADF, None, XrdHdfsDirectory_new, mini_sys)"
  using directory_protocol [of XrdHdfsDirectory_new mini_lib "''/d''" alice mini_sys 64 None]
  by (simp add: XrdHdfsDirectory_new_def)

end
