(* ===== verification/Hdfs_Cksum.thy ===== *)
theory Hdfs_Cksum
  imports Hdfs_Prelude
begin

text \<open>
  The POSIX \<open>cksum\<close> arithmetic of \<^verbatim>\<open>src/src/XrdHdfsChecksumCalc.cc\<close>: the table \<^verbatim>\<open>g_crctab\<close>, the loop of
  \<^verbatim>\<open>ChecksumState::Update\<close> over a buffer and the loop of \<^verbatim>\<open>ChecksumState::Finalize\<close> over the length,
  and beside them the bit-serial division by the generator polynomial that the standard
  prescribes.  The two are proved equal for every input.
\<close>


section \<open>The table-driven routine of the source\<close>

definition g_crctab :: "32 word list" where
  "g_crctab = [
    0x00000000, 0x04C11DB7, 0x09823B6E, 0x0D4326D9, 0x130476DC, 0x17C56B6B,
    0x1A864DB2, 0x1E475005, 0x2608EDB8, 0x22C9F00F, 0x2F8AD6D6, 0x2B4BCB61,
    0x350C9B64, 0x31CD86D3, 0x3C8EA00A, 0x384FBDBD, 0x4C11DB70, 0x48D0C6C7,
    0x4593E01E, 0x4152FDA9, 0x5F15ADAC, 0x5BD4B01B, 0x569796C2, 0x52568B75,
    0x6A1936C8, 0x6ED82B7F, 0x639B0DA6, 0x675A1011, 0x791D4014, 0x7DDC5DA3,
    0x709F7B7A, 0x745E66CD, 0x9823B6E0, 0x9CE2AB57, 0x91A18D8E, 0x95609039,
    0x8B27C03C, 0x8FE6DD8B, 0x82A5FB52, 0x8664E6E5, 0xBE2B5B58, 0xBAEA46EF,
    0xB7A96036, 0xB3687D81, 0xAD2F2D84, 0xA9EE3033, 0xA4AD16EA, 0xA06C0B5D,
    0xD4326D90, 0xD0F37027, 0xDDB056FE, 0xD9714B49, 0xC7361B4C, 0xC3F706FB,
    0xCEB42022, 0xCA753D95, 0xF23A8028, 0xF6FB9D9F, 0xFBB8BB46, 0xFF79A6F1,
    0xE13EF6F4, 0xE5FFEB43, 0xE8BCCD9A, 0xEC7DD02D, 0x34867077, 0x30476DC0,
    0x3D044B19, 0x39C556AE, 0x278206AB, 0x23431B1C, 0x2E003DC5, 0x2AC12072,
    0x128E9DCF, 0x164F8078, 0x1B0CA6A1, 0x1FCDBB16, 0x018AEB13, 0x054BF6A4,
    0x0808D07D, 0x0CC9CDCA, 0x7897AB07, 0x7C56B6B0, 0x71159069, 0x75D48DDE,
    0x6B93DDDB, 0x6F52C06C, 0x6211E6B5, 0x66D0FB02, 0x5E9F46BF, 0x5A5E5B08,
    0x571D7DD1, 0x53DC6066, 0x4D9B3063, 0x495A2DD4, 0x44190B0D, 0x40D816BA,
    0xACA5C697, 0xA864DB20, 0xA527FDF9, 0xA1E6E04E, 0xBFA1B04B, 0xBB60ADFC,
    0xB6238B25, 0xB2E29692, 0x8AAD2B2F, 0x8E6C3698, 0x832F1041, 0x87EE0DF6,
    0x99A95DF3, 0x9D684044, 0x902B669D, 0x94EA7B2A, 0xE0B41DE7, 0xE4750050,
    0xE9362689, 0xEDF73B3E, 0xF3B06B3B, 0xF771768C, 0xFA325055, 0xFEF34DE2,
    0xC6BCF05F, 0xC27DEDE8, 0xCF3ECB31, 0xCBFFD686, 0xD5B88683, 0xD1799B34,
    0xDC3ABDED, 0xD8FBA05A, 0x690CE0EE, 0x6DCDFD59, 0x608EDB80, 0x644FC637,
    0x7A089632, 0x7EC98B85, 0x738AAD5C, 0x774BB0EB, 0x4F040D56, 0x4BC510E1,
    0x46863638, 0x42472B8F, 0x5C007B8A, 0x58C1663D, 0x558240E4, 0x51435D53,
    0x251D3B9E, 0x21DC2629, 0x2C9F00F0, 0x285E1D47, 0x36194D42, 0x32D850F5,
    0x3F9B762C, 0x3B5A6B9B, 0x0315D626, 0x07D4CB91, 0x0A97ED48, 0x0E56F0FF,
    0x1011A0FA, 0x14D0BD4D, 0x19939B94, 0x1D528623, 0xF12F560E, 0xF5EE4BB9,
    0xF8AD6D60, 0xFC6C70D7, 0xE22B20D2, 0xE6EA3D65, 0xEBA91BBC, 0xEF68060B,
    0xD727BBB6, 0xD3E6A601, 0xDEA580D8, 0xDA649D6F, 0xC423CD6A, 0xC0E2D0DD,
    0xCDA1F604, 0xC960EBB3, 0xBD3E8D7E, 0xB9FF90C9, 0xB4BCB610, 0xB07DABA7,
    0xAE3AFBA2, 0xAAFBE615, 0xA7B8C0CC, 0xA379DD7B, 0x9B3660C6, 0x9FF77D71,
    0x92B45BA8, 0x9675461F, 0x8832161A, 0x8CF30BAD, 0x81B02D74, 0x857130C3,
    0x5D8A9099, 0x594B8D2E, 0x5408ABF7, 0x50C9B640, 0x4E8EE645, 0x4A4FFBF2,
    0x470CDD2B, 0x43CDC09C, 0x7B827D21, 0x7F436096, 0x7200464F, 0x76C15BF8,
    0x68860BFD, 0x6C47164A, 0x61043093, 0x65C52D24, 0x119B4BE9, 0x155A565E,
    0x18197087, 0x1CD86D30, 0x029F3D35, 0x065E2082, 0x0B1D065B, 0x0FDC1BEC,
    0x3793A651, 0x3352BBE6, 0x3E119D3F, 0x3AD08088, 0x2497D08D, 0x2056CD3A,
    0x2D15EBE3, 0x29D4F654, 0xC5A92679, 0xC1683BCE, 0xCC2B1D17, 0xC8EA00A0,
    0xD6AD50A5, 0xD26C4D12, 0xDF2F6BCB, 0xDBEE767C, 0xE3A1CBC1, 0xE760D676,
    0xEA23F0AF, 0xEEE2ED18, 0xF0A5BD1D, 0xF464A0AA, 0xF9278673, 0xFDE69BC4,
    0x89B8FD09, 0x8D79E0BE, 0x803AC667, 0x84FBDBD0, 0x9ABC8BD5, 0x9E7D9662,
    0x933EB0BB, 0x97FFAD0C, 0xAFB010B1, 0xAB710D06, 0xA6322BDF, 0xA2F33668,
    0xBCB4666D, 0xB8757BDA, 0xB5365D03, 0xB1F740B4]"

text \<open>One turn of the loop over the buffer.\<close>

definition cksum_step :: "32 word \<Rightarrow> char \<Rightarrow> 32 word" where
  "cksum_step crc c =
     push_bit 8 crc XOR g_crctab ! unat ((drop_bit 24 crc XOR of_char c) AND 0xFF)"

fun cksum_loop :: "32 word \<Rightarrow> bytes \<Rightarrow> 32 word" where
  "cksum_loop crc [] = crc"
| "cksum_loop crc (c # cs) = cksum_loop (cksum_step crc c) cs"

text \<open>
  The loop over the length: \<^verbatim>\<open>c = n & 0377; n >>= 8\<close> while \<^verbatim>\<open>n != 0\<close>; the index has no mask here.
\<close>

fun cksum_length :: "32 word \<Rightarrow> nat \<Rightarrow> 32 word" where
  "cksum_length crc n =
     (if n = 0 then crc
      else cksum_length
        (push_bit 8 crc XOR g_crctab ! unat (drop_bit 24 crc XOR word_of_nat (n mod 256)))
        (n div 256))"

declare cksum_length.simps [simp del]


section \<open>The standard's definition\<close>

text \<open>
  Division by \<open>x\<^sup>3\<^sup>2 + x\<^sup>2\<^sup>6 + \<dots> + 1\<close> (0x04C11DB7), one bit at a time, of the file's octets followed by
  the octets of its length, least significant first, as many as are needed; the result is
  complemented.
\<close>

definition bit_step :: "32 word \<Rightarrow> 32 word" where
  "bit_step crc = push_bit 1 crc XOR (if bit crc 31 then 0x04C11DB7 else 0)"

definition octet_step :: "32 word \<Rightarrow> char \<Rightarrow> 32 word" where
  "octet_step crc c = (bit_step ^^ 8) (crc XOR push_bit 24 (of_char c))"

fun le_octets :: "nat \<Rightarrow> bytes" where
  "le_octets n = (if n = 0 then [] else char_of (n mod 256) # le_octets (n div 256))"

declare le_octets.simps [simp del]

definition posix_cksum :: "bytes \<Rightarrow> 32 word" where
  "posix_cksum data = NOT (foldl octet_step 0 (data @ le_octets (length data)))"


section \<open>The table holds the remainders\<close>

lemma bit_step_8:
  "(bit_step ^^ 8) x =
     bit_step (bit_step (bit_step (bit_step (bit_step (bit_step (bit_step (bit_step x)))))))"
  by (simp add: numeral_eq_Suc)

lemma bit_step_numeral:
  "bit_step (numeral n) =
     push_bit 1 (numeral n) XOR (if bit (numeral n :: 32 word) 31 then 0x04C11DB7 else 0)"
  by (simp add: bit_step_def)

lemma bit_step_0: "bit_step 0 = 0"
  by (simp add: bit_step_def)

fun table_ok :: "32 word \<Rightarrow> 32 word list \<Rightarrow> bool" where
  "table_ok x [] = True"
| "table_ok x (t # ts) = ((bit_step ^^ 8) x = t \<and> table_ok (x + 0x1000000) ts)"

lemma table_ok_crctab: "table_ok 0 g_crctab"
  unfolding g_crctab_def by (simp add: bit_step_8 bit_step_numeral bit_step_0)

lemma table_ok_nth:
  "table_ok x ts \<Longrightarrow> i < length ts \<Longrightarrow>
     ts ! i = (bit_step ^^ 8) (x + word_of_nat i * 0x1000000)"
proof (induction ts arbitrary: x i)
  case (Cons t ts)
  then show ?case by (cases i) (auto simp: algebra_simps)
qed simp

lemma length_crctab [simp]: "length g_crctab = 256"
  by (simp add: g_crctab_def)

lemma crctab_entry:
  "i < 256 \<Longrightarrow> g_crctab ! i = (bit_step ^^ 8) (push_bit 24 (word_of_nat i))"
  using table_ok_nth [OF table_ok_crctab, of i] by (simp add: push_bit_eq_mult mult.commute)


section \<open>One octet by table and by bits\<close>

lemma bit_step_xor: "bit_step (x XOR y) = bit_step x XOR bit_step y"
  by (auto simp: bit_step_def push_bit_xor bit_xor_iff ac_simps xor.assoc)

lemma bit_step_pow_xor: "(bit_step ^^ n) (x XOR y) = (bit_step ^^ n) x XOR (bit_step ^^ n) y"
  by (induction n) (simp_all add: bit_step_xor)

lemma bit_step_low:
  assumes "\<And>i. 24 \<le> i \<Longrightarrow> \<not> bit x i" "n \<le> 8"
  shows "(bit_step ^^ n) x = push_bit n x"
  using assms(2)
proof (induction n)
  case (Suc n)
  then have "\<not> bit (push_bit n x) 31"
    using assms(1) [of "31 - n"] by (simp add: bit_push_bit_iff)
  with Suc show ?case by (simp add: bit_step_def push_bit_eq_mult ac_simps)
qed simp

lemma word_high_low: "(x :: 32 word) = push_bit 24 (drop_bit 24 x) XOR (x AND mask 24)"
  by (rule bit_word_eqI) (auto simp: bit_simps)

lemma high_byte: "unat (drop_bit 24 (x :: 32 word)) < 256"
proof -
  have "unat (drop_bit 24 x) = unat x div 2 ^ 24"
    by (simp only: unat_drop_bit_eq) (simp add: drop_bit_eq_div)
  moreover have "unat x < 2 ^ 32" using unsigned_less [of x] by simp
  ultimately show ?thesis by (simp add: less_mult_imp_div_less)
qed

lemma of_char_word_high: "8 \<le> n \<Longrightarrow> \<not> bit (of_char b :: 32 word) n"
proof -
  assume n: "8 \<le> n"
  have "take_bit 8 (of_char b :: nat) = of_char b"
    by (rule take_bit_nat_eq_self) simp
  with n have "\<not> bit (of_char b :: nat) n"
    by (metis bit_take_bit_iff leD)
  moreover have "(of_char b :: 32 word) = word_of_nat (of_char b)"
    by (rule of_nat_of_char [symmetric])
  ultimately show ?thesis by (simp only: bit_of_nat_iff simp_thms)
qed

lemma drop_push_octet: "drop_bit 24 (push_bit 24 (of_char b :: 32 word)) = of_char b"
  by (rule bit_word_eqI)
    (auto simp: bit_simps not_less dest: bit_imp_le_length
      elim: contrapos_pp [OF _ of_char_word_high])

lemma high_and_mask: "drop_bit 24 (x :: 32 word) AND 0xFF = drop_bit 24 x"
proof -
  have "drop_bit 24 x AND mask 8 = drop_bit 24 x"
    by (rule bit_word_eqI) (auto simp: bit_simps dest: bit_imp_le_length)
  then show ?thesis by (simp add: mask_eq_exp_minus_1)
qed

lemma high_xor_octet:
  "drop_bit 24 crc XOR of_char c = drop_bit 24 (crc XOR push_bit 24 (of_char c :: 32 word))"
  by (simp add: drop_bit_xor drop_push_octet)

lemma cksum_step_octet: "cksum_step crc c = octet_step crc c"
proof -
  let ?x = "crc XOR push_bit 24 (of_char c)"
  let ?hi = "drop_bit 24 ?x" and ?lo = "?x AND mask 24"
  have hi: "?hi = drop_bit 24 crc XOR of_char c"
    by (rule high_xor_octet [symmetric])
  have tab: "g_crctab ! unat (?hi AND 0xFF) = (bit_step ^^ 8) (push_bit 24 ?hi)"
    unfolding high_and_mask by (subst crctab_entry [OF high_byte]) simp
  have lo: "(bit_step ^^ 8) ?lo = push_bit 8 ?lo"
    by (rule bit_step_low) (auto simp: bit_simps)
  have shift: "push_bit 8 ?lo = push_bit 8 crc"
    by (rule bit_word_eqI) (auto simp: bit_simps)
  have "octet_step crc c = (bit_step ^^ 8) (push_bit 24 ?hi XOR ?lo)"
    unfolding octet_step_def by (subst word_high_low) simp
  also have "\<dots> = (bit_step ^^ 8) (push_bit 24 ?hi) XOR push_bit 8 crc"
    by (simp only: bit_step_pow_xor lo shift)
  finally show ?thesis
    using tab hi by (simp add: cksum_step_def xor.commute)
qed

lemma word_of_char_of: "n < 256 \<Longrightarrow> (of_char (char_of n) :: 32 word) = word_of_nat n"
  by (metis of_nat_of_char of_char_of mod_less)

lemma word_of_char_of_mod: "(of_char (char_of (n mod 256)) :: 32 word) = word_of_nat (n mod 256)"
  by (rule word_of_char_of) simp

text \<open>In the loop over the length the index needs no mask: it is an octet already.\<close>

lemma cksum_length_step:
  "push_bit 8 crc XOR g_crctab ! unat (drop_bit 24 crc XOR word_of_nat (n mod 256))
     = octet_step crc (char_of (n mod 256))"
proof -
  have "(drop_bit 24 crc XOR of_char (char_of (n mod 256))) AND 0xFF
      = drop_bit 24 crc XOR word_of_nat (n mod 256)"
    unfolding high_xor_octet high_and_mask
    unfolding high_xor_octet [symmetric] by (simp only: word_of_char_of_mod)
  then show ?thesis
    by (simp only: cksum_step_octet [symmetric] cksum_step_def)
qed


section \<open>Whole files\<close>

text \<open>
  A routine that consumes a byte stream piecewise, as every digest in the plugin does: what
  matters is that cutting the stream differently makes no difference.
\<close>

locale stream_update =
  fixes inv :: "'s \<Rightarrow> bool" and upd :: "'s \<Rightarrow> 'b list \<Rightarrow> 's"
  assumes inv_upd: "inv s \<Longrightarrow> inv (upd s xs)"
    and upd_Nil: "inv s \<Longrightarrow> upd s [] = s"
    and upd_append: "inv s \<Longrightarrow> upd (upd s xs) ys = upd s (xs @ ys)"
begin

lemma upd_concat: "inv s \<Longrightarrow> foldl upd s pieces = upd s (concat pieces)"
  by (induction pieces arbitrary: s) (simp_all add: upd_Nil inv_upd upd_append)

lemma upd_resplit:
  "inv s \<Longrightarrow> concat pieces = concat pieces' \<Longrightarrow> foldl upd s pieces = foldl upd s pieces'"
  by (simp add: upd_concat)

end

lemma cksum_loop_foldl: "cksum_loop crc cs = foldl octet_step crc cs"
  by (induction cs arbitrary: crc) (simp_all add: cksum_step_octet)

interpretation cksum: stream_update "\<lambda>_. True" cksum_loop
  by unfold_locales (simp_all add: cksum_loop_foldl)

lemma cksum_length_foldl: "cksum_length crc n = foldl octet_step crc (le_octets n)"
proof (induction crc n rule: cksum_length.induct)
  case (1 crc n)
  show ?case
  proof (cases "n = 0")
    case True
    then show ?thesis by (simp add: cksum_length.simps le_octets.simps)
  next
    case False
    with 1 show ?thesis
      by (subst cksum_length.simps, subst le_octets.simps) (simp add: cksum_length_step)
  qed
qed

text \<open>
  C1. The table-driven cksum of the source, run over the pieces of a file in any division and
  then over the file's length and complemented, is the CRC of the POSIX standard, computed bit by
  bit from the generator polynomial.
\<close>

theorem cksum_is_posix:
  "NOT (cksum_length (foldl cksum_loop 0 pieces) (length (concat pieces)))
     = posix_cksum (concat pieces)"
  by (simp add: cksum.upd_concat cksum_length_foldl cksum_loop_foldl posix_cksum_def)

text \<open>The published check value of the algorithm.\<close>

lemma posix_cksum_check: "posix_cksum ''123456789'' = 0x377A6011"
  by (simp add: posix_cksum_def octet_step_def bit_step_8 bit_step_numeral bit_step_0
      le_octets.simps word_of_char_of)

end
