(* ===== verification/Hdfs_ChecksumState.thy ===== *)
theory Hdfs_ChecksumState
  imports Hdfs_Cksum
begin

text \<open>
  The class \<^verbatim>\<open>ChecksumState\<close> (\<^verbatim>\<open>src/src/XrdHdfsChecksum.hh\<close>, \<^verbatim>\<open>src/src/XrdHdfsChecksumCalc.cc\<close>): the
  digests kept while a file is written or read.  zlib (\<^verbatim>\<open>adler32\<close>, \<^verbatim>\<open>crc32\<close>) and OpenSSL (the EVP
  contexts) are the parameter \<open>D\<close>.  The abstraction is the byte sequence consumed so far:
  \<open>represents D ds j data st\<close> says that \<open>st\<close> is what the class should hold after \<open>data\<close>, and
  \<^verbatim>\<open>Update\<close> is proved to implement appending to it, however the data is cut into buffers.
\<close>


section \<open>The parameter: zlib and OpenSSL\<close>

record 'md cklib =
  adler32_init :: "32 word"
  adler32 :: "32 word \<Rightarrow> bytes \<Rightarrow> 32 word"
  zcrc32 :: "32 word \<Rightarrow> bytes \<Rightarrow> 32 word"
  EVP_md5 :: 'md
  EVP_sha1 :: 'md
  EVP_DigestUpdate :: "'md \<Rightarrow> bytes \<Rightarrow> 'md"
  EVP_DigestFinal_ex :: "'md \<Rightarrow> bytes"

text \<open>
  What the libraries document: each call continues the running value, so feeding a sequence in
  two pieces is feeding it whole (for Adler-32, whose halves are reduced modulo 65521, from its initial value on).
\<close>

definition running_digests :: "'md cklib \<Rightarrow> bool" where
  "running_digests D \<longleftrightarrow>
     (\<forall>xs ys. adler32 D (adler32 D (adler32_init D) xs) ys = adler32 D (adler32_init D) (xs @ ys)) \<and>
     adler32 D (adler32_init D) [] = adler32_init D \<and>
     (\<forall>a xs ys. zcrc32 D (zcrc32 D a xs) ys = zcrc32 D a (xs @ ys)) \<and>
     (\<forall>a. zcrc32 D a [] = a) \<and>
     (\<forall>c xs ys. EVP_DigestUpdate D (EVP_DigestUpdate D c xs) ys = EVP_DigestUpdate D c (xs @ ys)) \<and>
     (\<forall>c. EVP_DigestUpdate D c [] = c)"


section \<open>State\<close>

abbreviation MD5 :: "32 word" where "MD5 \<equiv> 0x01"
abbreviation CKSUM :: "32 word" where "CKSUM \<equiv> 0x02"
abbreviation ADLER32 :: "32 word" where "ADLER32 \<equiv> 0x04"
abbreviation CVMFS :: "32 word" where "CVMFS \<equiv> 0x08"
abbreviation CRC32 :: "32 word" where "CRC32 \<equiv> 0x10"
abbreviation ALL_DIGESTS :: "32 word" where "ALL_DIGESTS \<equiv> 0xFF"

definition CVMFS_CHUNK_SIZE :: nat where
  "CVMFS_CHUNK_SIZE = 24 * 1024 * 1024"

text \<open>The test \<^verbatim>\<open>a & b\<close> used as a condition.\<close>

definition has :: "32 word \<Rightarrow> 32 word \<Rightarrow> bool" where
  "has a b \<longleftrightarrow> a AND b \<noteq> 0"

record CvmfsChunk =
  c_sha1 :: string
  c_offset :: nat

record 'md ChecksumState =
  m_digests :: "32 word"
  m_crc32 :: "32 word"
  m_cksum :: "32 word"
  m_adler32 :: "32 word"
  m_md5_length :: nat
  m_cur_chunk_bytes :: nat
  m_offset :: nat
  m_md5 :: "'md option"
  m_file_sha1 :: "'md option"
  m_chunk_sha1 :: "'md option"
  m_md5_value :: bytes
  m_sha1_final :: string
  m_graft :: string
  m_chunks :: "CvmfsChunk list"


section \<open>Operations\<close>

definition human_readable_evp :: "bytes \<Rightarrow> nat \<Rightarrow> string" where
  "human_readable_evp evp len = concat (map hex_byte (take len evp))"

text \<open>
  The constructor.  Its initialiser list leaves \<^verbatim>\<open>m_crc32\<close> out: the member starts with whatever
  the memory held, the argument \<open>j\<close>.
\<close>

definition ChecksumState_new :: "'md cklib \<Rightarrow> 32 word \<Rightarrow> 32 word \<Rightarrow> 'md ChecksumState" where
  "ChecksumState_new D j digests = \<lparr>
     m_digests = digests,
     m_crc32 = j,
     m_cksum = 0,
     m_adler32 = adler32_init D,
     m_md5_length = 0,
     m_cur_chunk_bytes = 0,
     m_offset = 0,
     m_md5 = (if has digests MD5 then Some (EVP_md5 D) else None),
     m_file_sha1 = (if has digests CVMFS then Some (EVP_sha1 D) else None),
     m_chunk_sha1 = (if has digests CVMFS then Some (EVP_sha1 D) else None),
     m_md5_value = [], m_sha1_final = [], m_graft = [], m_chunks = []\<rparr>"

text \<open>
  The destructor, as the number of digest contexts it destroys.  \<^verbatim>\<open>Finalize\<close> destroys them too, and leaves
  null pointers.
\<close>

definition ChecksumState_delete :: "'md ChecksumState \<Rightarrow> nat" where
  "ChecksumState_delete st = length (filter (\<lambda>ctx. ctx \<noteq> None) [m_md5 st, m_file_sha1 st, m_chunk_sha1 st])"

text \<open>
  The loop of \<^verbatim>\<open>Update\<close> that closes full CVMFS chunks.  \<open>buf\<close> is the part of
  the buffer from \<^verbatim>\<open>buffer_offset\<close> on, so that its length is the source's remaining \<^verbatim>\<open>bsize\<close>.
\<close>

function cvmfs_loop ::
  "'md cklib \<Rightarrow> nat \<Rightarrow> nat \<Rightarrow> 'md option \<Rightarrow> CvmfsChunk list \<Rightarrow> bytes
     \<Rightarrow> nat \<times> 'md option \<times> CvmfsChunk list \<times> bytes" where
  "cvmfs_loop D total_bytes cur ctx chunks buf =
     (if CVMFS_CHUNK_SIZE \<le> total_bytes then
        let new_bytes = CVMFS_CHUNK_SIZE - cur;
            ctx1 = map_option (\<lambda>c. EVP_DigestUpdate D c (take new_bytes buf)) ctx;
            sha1_value = (case ctx1 of Some c \<Rightarrow> EVP_DigestFinal_ex D c | None \<Rightarrow> []);
            new_chunk = \<lparr>c_sha1 = human_readable_evp sha1_value (length sha1_value),
                         c_offset = (if chunks = [] then 0
                                     else c_offset (last chunks) + CVMFS_CHUNK_SIZE)\<rparr>
        in cvmfs_loop D (total_bytes - CVMFS_CHUNK_SIZE) 0 (map_option (\<lambda>_. EVP_sha1 D) ctx1)
             (chunks @ [new_chunk]) (drop new_bytes buf)
      else (cur, ctx, chunks, buf))"
  by pat_completeness auto
termination
  by (relation "measure (\<lambda>(D, total_bytes, cur, ctx, chunks, buf). total_bytes)")
    (auto simp: CVMFS_CHUNK_SIZE_def)

declare cvmfs_loop.simps [simp del]

text \<open>
  \<^verbatim>\<open>Update (buffer, bsize)\<close> with \<open>bsize\<close> the length of the buffer.  zlib takes its length as a 32-bit
  \<^verbatim>\<open>uInt\<close>.
\<close>

definition uInt_part :: "bytes \<Rightarrow> bytes" where
  "uInt_part buf = take (length buf mod 2 ^ 32) buf"

definition Update :: "'md cklib \<Rightarrow> 'md ChecksumState \<Rightarrow> bytes \<Rightarrow> 'md ChecksumState" where
  "Update D st buffer =
     (let bsize = length buffer;
          st = st\<lparr>m_offset := m_offset st + bsize\<rparr>;
          st = (if has (m_digests st) ADLER32
                then st\<lparr>m_adler32 := adler32 D (m_adler32 st) (uInt_part buffer)\<rparr> else st);
          st = (if has (m_digests st) CKSUM
                then st\<lparr>m_cksum := cksum_loop (m_cksum st) buffer\<rparr> else st);
          st = (if has (m_digests st) CRC32
                then st\<lparr>m_crc32 := zcrc32 D (m_crc32 st) (uInt_part buffer)\<rparr> else st);
          st = (if has (m_digests st) MD5
                then st\<lparr>m_md5 := map_option (\<lambda>c. EVP_DigestUpdate D c buffer) (m_md5 st)\<rparr> else st)
      in if has (m_digests st) CVMFS
         then (case cvmfs_loop D (m_cur_chunk_bytes st + bsize) (m_cur_chunk_bytes st)
                      (m_chunk_sha1 st) (m_chunks st) buffer of
                 (cur, ctx, chunks, rest) \<Rightarrow>
                   st\<lparr>m_file_sha1 := map_option (\<lambda>c. EVP_DigestUpdate D c buffer) (m_file_sha1 st),
                      m_chunk_sha1 := map_option (\<lambda>c. EVP_DigestUpdate D c rest) ctx,
                      m_chunks := chunks,
                      m_cur_chunk_bytes := cur + length rest\<rparr>)
         else st)"

text \<open>
  The text \<^verbatim>\<open>Finalize\<close> builds for CVMFS.  The source also builds a record for the last, partial chunk,
  but never appends it to \<^verbatim>\<open>m_chunks\<close>, so that it has no effect.
\<close>

definition graft_text :: "nat \<Rightarrow> string \<Rightarrow> CvmfsChunk list \<Rightarrow> string" where
  "graft_text sz sha1 chunks =
     ''size='' @ show_nat sz @ '';checksum='' @ sha1 @
     (if length chunks < 2
      then '';chunk_offsets=0;chunk_checksums='' @ sha1
      else '';chunk_offsets=0'' @ concat (map (\<lambda>c. '','' @ show_nat (c_offset c)) (tl chunks)) @
           '';chunk_checksums='' @ c_sha1 (hd chunks) @
           concat (map (\<lambda>c. '','' @ c_sha1 c) (tl chunks)))"

definition evp_final :: "'md cklib \<Rightarrow> 'md option \<Rightarrow> bytes" where
  "evp_final D ctx = (case ctx of Some c \<Rightarrow> EVP_DigestFinal_ex D c | None \<Rightarrow> [])"

definition Finalize :: "'md cklib \<Rightarrow> 'md ChecksumState \<Rightarrow> 'md ChecksumState" where
  "Finalize D st =
     (let st = (if has (m_digests st) MD5
                then st\<lparr>m_md5_value := evp_final D (m_md5 st),
                        m_md5_length := length (evp_final D (m_md5 st)), m_md5 := None\<rparr> else st);
          st = (if has (m_digests st) CKSUM
                then st\<lparr>m_cksum := NOT (cksum_length (m_cksum st) (m_offset st))\<rparr> else st)
      in if has (m_digests st) CVMFS
         then let sha1_value = evp_final D (m_file_sha1 st);
                  sha1_final = human_readable_evp sha1_value (length sha1_value)
              in st\<lparr>m_file_sha1 := None, m_chunk_sha1 := None, m_sha1_final := sha1_final,
                    m_graft := graft_text (m_offset st) sha1_final (m_chunks st)\<rparr>
         else st)"

text \<open>The bytes of \<^verbatim>\<open>htonl (x)\<close> in memory: most significant first on every host.\<close>

definition htonl_bytes :: "32 word \<Rightarrow> bytes" where
  "htonl_bytes x = map (\<lambda>k. char_of (unat (drop_bit k x) mod 256)) [24, 16, 8, 0]"

definition Get_digest :: "'md ChecksumState \<Rightarrow> 32 word \<Rightarrow> string" where
  "Get_digest st d =
     (if has d CKSUM \<and> has (m_digests st) CKSUM then show_nat (unat (m_cksum st))
      else if has d CRC32 \<and> has (m_digests st) CRC32
        then human_readable_evp (htonl_bytes (m_crc32 st)) 4
      else if has d ADLER32 \<and> has (m_digests st) ADLER32
        then human_readable_evp (htonl_bytes (m_adler32 st)) 4
      else if has d MD5 \<and> has (m_digests st) MD5
        then human_readable_evp (m_md5_value st) (m_md5_length st)
      else if has d CVMFS \<and> has (m_digests st) CVMFS then m_graft st
      else '''')"


section \<open>What the state stands for\<close>

text \<open>The full chunks of \<open>data\<close>, in order, each with its offset and the hexadecimal SHA-1.\<close>

definition sha1_hex :: "'md cklib \<Rightarrow> bytes \<Rightarrow> string" where
  "sha1_hex D data = concat (map hex_byte (EVP_DigestFinal_ex D (EVP_DigestUpdate D (EVP_sha1 D) data)))"

definition full_chunks :: "'md cklib \<Rightarrow> bytes \<Rightarrow> CvmfsChunk list" where
  "full_chunks D data =
     map (\<lambda>i. \<lparr>c_sha1 = sha1_hex D (segment data (i * CVMFS_CHUNK_SIZE) CVMFS_CHUNK_SIZE),
               c_offset = i * CVMFS_CHUNK_SIZE\<rparr>)
       [0..<length data div CVMFS_CHUNK_SIZE]"

definition open_chunk :: "bytes \<Rightarrow> bytes" where
  "open_chunk data = drop (length data div CVMFS_CHUNK_SIZE * CVMFS_CHUNK_SIZE) data"

definition represents ::
  "'md cklib \<Rightarrow> 32 word \<Rightarrow> 32 word \<Rightarrow> bytes \<Rightarrow> 'md ChecksumState \<Rightarrow> bool" where
  "represents D j ds data st \<longleftrightarrow>
     m_digests st = ds \<and> m_offset st = length data \<and>
     (has ds ADLER32 \<longrightarrow> m_adler32 st = adler32 D (adler32_init D) data) \<and>
     (has ds CKSUM \<longrightarrow> m_cksum st = cksum_loop 0 data) \<and>
     (has ds CRC32 \<longrightarrow> m_crc32 st = zcrc32 D j data) \<and>
     (has ds MD5 \<longrightarrow> m_md5 st = Some (EVP_DigestUpdate D (EVP_md5 D) data)) \<and>
     (has ds CVMFS \<longrightarrow>
        m_file_sha1 st = Some (EVP_DigestUpdate D (EVP_sha1 D) data) \<and>
        m_chunk_sha1 st = Some (EVP_DigestUpdate D (EVP_sha1 D) (open_chunk data)) \<and>
        m_cur_chunk_bytes st = length (open_chunk data) \<and>
        m_chunks st = full_chunks D data)"

lemma chunk_size_pos [simp]: "0 < CVMFS_CHUNK_SIZE"
  by (simp add: CVMFS_CHUNK_SIZE_def)

lemma human_readable_all: "human_readable_evp bs (length bs) = concat (map hex_byte bs)"
  by (simp add: human_readable_evp_def)

lemma length_open_chunk: "length (open_chunk data) = length data mod CVMFS_CHUNK_SIZE"
  by (simp add: open_chunk_def minus_div_mult_eq_mod [symmetric])

lemma length_open_chunk_less: "length (open_chunk data) < CVMFS_CHUNK_SIZE"
  by (simp add: length_open_chunk)

lemma length_full_chunks [simp]: "length (full_chunks D data) = length data div CVMFS_CHUNK_SIZE"
  by (simp add: full_chunks_def)

lemma represents_new:
  assumes "running_digests D"
  shows "represents D j ds [] (ChecksumState_new D j ds)"
  using assms
  by (simp add: represents_def ChecksumState_new_def running_digests_def open_chunk_def full_chunks_def)


lemma segment_full: "i < length data div c \<Longrightarrow> segment (data @ buf) (i * c) c = segment data (i * c) c"
  for c :: nat
proof -
  assume "i < length data div c"
  then have "i * c + c \<le> length data"
    by (metis Suc_leI add.commute div_times_less_eq_dividend le_trans mult_Suc mult_le_mono1)
  then show ?thesis by (simp add: segment_def)
qed

text \<open>Adding less than what fills the open chunk closes no chunk; adding exactly that closes one.\<close>

lemma open_chunk_append:
  assumes "length (open_chunk data) + length buf < CVMFS_CHUNK_SIZE"
  shows "open_chunk (data @ buf) = open_chunk data @ buf" "full_chunks D (data @ buf) = full_chunks D data"
proof -
  let ?C = CVMFS_CHUNK_SIZE
  have dv: "length (data @ buf) div ?C = length data div ?C"
    using assms by (simp add: length_open_chunk div_add_small)
  then show "open_chunk (data @ buf) = open_chunk data @ buf"
    by (simp add: open_chunk_def)
  show "full_chunks D (data @ buf) = full_chunks D data"
    unfolding full_chunks_def dv by (simp add: segment_full)
qed


lemma open_chunk_fill:
  assumes "length (open_chunk data) + length buf = CVMFS_CHUNK_SIZE"
  shows "open_chunk (data @ buf) = []"
    and "full_chunks D (data @ buf) = full_chunks D data @
      [\<lparr>c_sha1 = sha1_hex D (open_chunk data @ buf),
        c_offset = length (full_chunks D data) * CVMFS_CHUNK_SIZE\<rparr>]"
proof -
  let ?C = CVMFS_CHUNK_SIZE and ?q = "length data div CVMFS_CHUNK_SIZE"
  have dv: "length (data @ buf) div ?C = Suc ?q"
    using assms by (simp add: length_open_chunk div_add_fill)
  have len: "length (data @ buf) = Suc ?q * ?C"
    using assms by (simp add: length_open_chunk) (metis add.assoc add.commute div_mult_mod_eq)
  then show "open_chunk (data @ buf) = []"
    unfolding open_chunk_def dv by simp
  have "segment (data @ buf) (?q * ?C) ?C = open_chunk data @ buf"
    using len assms by (simp add: segment_def open_chunk_def)
  then show "full_chunks D (data @ buf) = full_chunks D data @
      [\<lparr>c_sha1 = sha1_hex D (open_chunk data @ buf),
        c_offset = length (full_chunks D data) * ?C\<rparr>]"
    unfolding full_chunks_def dv by (simp add: segment_full)
qed


lemma next_chunk_offset:
  "(if full_chunks D data = [] then 0 else c_offset (last (full_chunks D data)) + CVMFS_CHUNK_SIZE)
     = length (full_chunks D data) * CVMFS_CHUNK_SIZE"
proof (cases "length data div CVMFS_CHUNK_SIZE")
  case 0
  then show ?thesis by (simp add: full_chunks_def)
next
  case (Suc q)
  then show ?thesis by (simp add: full_chunks_def)
qed

lemma cvmfs_loop_correct:
  assumes D: "running_digests D"
    and "cvmfs_loop D (length (open_chunk data) + length buf) (length (open_chunk data))
           (Some (EVP_DigestUpdate D (EVP_sha1 D) (open_chunk data))) (full_chunks D data) buf
         = (cur, ctx, chunks, rest)"
  shows "map_option (\<lambda>c. EVP_DigestUpdate D c rest) ctx
           = Some (EVP_DigestUpdate D (EVP_sha1 D) (open_chunk (data @ buf)))
       \<and> chunks = full_chunks D (data @ buf)
       \<and> cur + length rest = length (open_chunk (data @ buf))"
  using assms(2)
proof (induction "length buf" arbitrary: data buf rule: less_induct)
  case less
  let ?C = CVMFS_CHUNK_SIZE and ?cur = "length (open_chunk data)"
  have upd: "EVP_DigestUpdate D (EVP_DigestUpdate D c xs) ys = EVP_DigestUpdate D c (xs @ ys)"
    "EVP_DigestUpdate D c [] = c" for c xs ys
    using D by (simp_all add: running_digests_def)
  show ?case
  proof (cases "?C \<le> ?cur + length buf")
    case False
    with less.prems have "cur = ?cur" "rest = buf" "chunks = full_chunks D data"
      "ctx = Some (EVP_DigestUpdate D (EVP_sha1 D) (open_chunk data))"
      by (simp_all add: cvmfs_loop.simps)
    with False show ?thesis
      by (simp add: open_chunk_append upd)
  next
    case True
    let ?n = "?C - ?cur"
    let ?data = "data @ take ?n buf"
    have n: "0 < ?n" "?n \<le> length buf" "?cur + length (take ?n buf) = ?C"
      using True length_open_chunk_less [of data] by auto
    note fill = open_chunk_fill [OF n(3)]
    have "cvmfs_loop D (?cur + length buf) ?cur
        (Some (EVP_DigestUpdate D (EVP_sha1 D) (open_chunk data))) (full_chunks D data) buf
      = cvmfs_loop D (length (drop ?n buf)) 0 (Some (EVP_sha1 D)) (full_chunks D ?data) (drop ?n buf)"
      using True n(1,2)
      by (subst cvmfs_loop.simps)
        (simp add: Let_def upd next_chunk_offset fill human_readable_all sha1_hex_def
          add.commute [of "length buf"])
    with less.prems fill(1)
    have "cvmfs_loop D (length (open_chunk ?data) + length (drop ?n buf)) (length (open_chunk ?data))
        (Some (EVP_DigestUpdate D (EVP_sha1 D) (open_chunk ?data))) (full_chunks D ?data) (drop ?n buf)
      = (cur, ctx, chunks, rest)"
      by (simp add: upd)
    from less.hyps [OF _ this] n show ?thesis by simp
  qed
qed

lemma uInt_part_small: "length buf < 2 ^ 32 \<Longrightarrow> uInt_part buf = buf"
  by (simp add: uInt_part_def)

text \<open>What \<^const>\<open>Update\<close> does to each member.\<close>

lemma Update_members:
  "m_digests (Update D st buf) = m_digests st"
  "m_offset (Update D st buf) = m_offset st + length buf"
  "m_adler32 (Update D st buf) =
     (if has (m_digests st) ADLER32 then adler32 D (m_adler32 st) (uInt_part buf) else m_adler32 st)"
  "m_cksum (Update D st buf) =
     (if has (m_digests st) CKSUM then cksum_loop (m_cksum st) buf else m_cksum st)"
  "m_crc32 (Update D st buf) =
     (if has (m_digests st) CRC32 then zcrc32 D (m_crc32 st) (uInt_part buf) else m_crc32 st)"
  "m_md5 (Update D st buf) =
     (if has (m_digests st) MD5 then map_option (\<lambda>c. EVP_DigestUpdate D c buf) (m_md5 st) else m_md5 st)"
  by (simp_all add: Update_def Let_def split: prod.splits)

lemma Update_cvmfs:
  assumes "has (m_digests st) CVMFS"
    and "cvmfs_loop D (m_cur_chunk_bytes st + length buf) (m_cur_chunk_bytes st)
           (m_chunk_sha1 st) (m_chunks st) buf = (cur, ctx, chunks, rest)"
  shows "m_file_sha1 (Update D st buf) = map_option (\<lambda>c. EVP_DigestUpdate D c buf) (m_file_sha1 st)"
    "m_chunk_sha1 (Update D st buf) = map_option (\<lambda>c. EVP_DigestUpdate D c rest) ctx"
    "m_chunks (Update D st buf) = chunks"
    "m_cur_chunk_bytes (Update D st buf) = cur + length rest"
  using assms by (simp_all add: Update_def Let_def)

lemma Update_represents_aux:
  assumes "running_digests D" and "represents D j ds data st" and "length buffer < 2 ^ 32"
  shows "represents D j ds (data @ buffer) (Update D st buffer)"
proof -
  from assms(1) have app: "adler32 D (adler32 D (adler32_init D) xs) ys = adler32 D (adler32_init D) (xs @ ys)"
    "zcrc32 D (zcrc32 D a xs) ys = zcrc32 D a (xs @ ys)"
    "EVP_DigestUpdate D (EVP_DigestUpdate D c xs) ys = EVP_DigestUpdate D c (xs @ ys)" for a c xs ys
    by (simp_all add: running_digests_def)
  have cvmfs: "m_file_sha1 (Update D st buffer) = Some (EVP_DigestUpdate D (EVP_sha1 D) (data @ buffer)) \<and>
      m_chunk_sha1 (Update D st buffer) = Some (EVP_DigestUpdate D (EVP_sha1 D) (open_chunk (data @ buffer))) \<and>
      m_cur_chunk_bytes (Update D st buffer) = length (open_chunk (data @ buffer)) \<and>
      m_chunks (Update D st buffer) = full_chunks D (data @ buffer)" if "has ds CVMFS"
  proof -
    obtain cur ctx chunks rest where loop:
      "cvmfs_loop D (m_cur_chunk_bytes st + length buffer) (m_cur_chunk_bytes st)
         (m_chunk_sha1 st) (m_chunks st) buffer = (cur, ctx, chunks, rest)"
      by (metis prod_cases4)
    from that assms(2) have st: "has (m_digests st) CVMFS"
      "m_file_sha1 st = Some (EVP_DigestUpdate D (EVP_sha1 D) data)"
      "m_chunk_sha1 st = Some (EVP_DigestUpdate D (EVP_sha1 D) (open_chunk data))"
      "m_cur_chunk_bytes st = length (open_chunk data)" "m_chunks st = full_chunks D data"
      by (auto simp: represents_def)
    from cvmfs_loop_correct [OF assms(1) loop [unfolded st]] show ?thesis
      unfolding Update_cvmfs [OF st(1) loop] by (simp add: st app)
  qed
  from assms(2) have "m_digests st = ds" "m_offset st = length data" by (simp_all add: represents_def)
  with assms(2) cvmfs show ?thesis
    by (simp add: represents_def Update_members app uInt_part_small [OF assms(3)] cksum.upd_append)
qed

text \<open>The buffers of a whole file, one after another.\<close>

lemma Updates_represent:
  assumes "running_digests D" and "\<forall>b \<in> set buffers. length b < 2 ^ 32"
    and "represents D j ds data st"
  shows "represents D j ds (data @ concat buffers) (foldl (Update D) st buffers)"
  using assms(2,3)
proof (induction buffers arbitrary: data st)
  case (Cons b bs)
  then have "represents D j ds (data @ b) (Update D st b)"
    by (intro Update_represents_aux [OF assms(1)]) simp_all
  from Cons.IH [OF _ this] Cons.prems(1) show ?case by simp
qed simp

text \<open>
  C2. \<^verbatim>\<open>Update\<close> implements appending to the data: if the state stands for \<open>data\<close>, then after
  \<open>Update (buffer)\<close> it stands for \<open>data @ buffer\<close>, for every digest kept at once: the running Adler-32,
  CRC-32, cksum and MD5, the SHA-1 of the file and, per full 24 MiB chunk, the offset and SHA-1
  of that chunk, wherever the boundaries fall in the buffer.
\<close>


theorem Update_represents:
  assumes "running_digests D" and "represents D j ds data st" and "length buffer < 2 ^ 32"
  shows "represents D j ds (data @ buffer) (Update D st buffer)"
  by (rule Update_represents_aux) fact+


section \<open>Hexadecimal text\<close>

fun unhex :: "string \<Rightarrow> bytes" where
  "unhex (a # b # cs) = char_of (16 * unhex_digit a + unhex_digit b) # unhex cs"
| "unhex _ = []"

lemma hex_byte_cons: "\<exists>x y. hex_byte b = [x, y] \<and> char_of (16 * unhex_digit x + unhex_digit y) = b"
  by (simp add: hex_byte_def Let_def less_mult_imp_div_less)

lemma unhex_concat: "unhex (concat (map hex_byte bs)) = bs"
proof (induction bs)
  case (Cons b bs)
  with hex_byte_cons [of b] show ?case by auto
qed simp

lemma length_hex: "length (concat (map hex_byte bs)) = 2 * length bs"
  by (induction bs) (auto simp: hex_byte_def Let_def)

lemma hex_plain: "list_all plain_char (concat (map hex_byte bs))"
  by (induction bs) (simp_all add: hex_byte_plain)

text \<open>
  The hexadecimal text of a digest loses nothing: it has two characters per byte, none of them
  white space, a colon or a null, and decodes to the first \<open>length\<close> bytes of the buffer.
\<close>

theorem human_readable_roundtrip:
  "unhex (human_readable_evp evp len) = take len evp \<and>
   length (human_readable_evp evp len) = 2 * min len (length evp) \<and>
   list_all plain_char (human_readable_evp evp len)"
  by (simp add: human_readable_evp_def unhex_concat length_hex hex_plain min.commute)

lemma htonl_inj: "htonl_bytes x = htonl_bytes y \<longleftrightarrow> x = y"
proof
  assume eq: "htonl_bytes x = htonl_bytes y"
  have octets: "take_bit 8 (drop_bit k x) = take_bit 8 (drop_bit k y)" if "k \<in> {24, 16, 8, 0}" for k
  proof -
    have "unat (drop_bit k x) mod 256 = unat (drop_bit k y) mod 256"
      using eq that by (auto simp: htonl_bytes_def)
    then have "unat (take_bit 8 (drop_bit k x)) = unat (take_bit 8 (drop_bit k y))"
      by (simp add: take_bit_eq_mod unat_mod)
    then show ?thesis by (simp only: word_unat_eq_iff)
  qed
  show "x = y"
  proof (rule bit_word_eqI)
    fix n assume "n < LENGTH(32)"
    then have "n div 8 * 8 \<in> {24, 16, 8, 0}" by auto
    from octets [OF this] have
      "bit (take_bit 8 (drop_bit (n div 8 * 8) x)) (n mod 8) = bit (take_bit 8 (drop_bit (n div 8 * 8) y)) (n mod 8)"
      by simp
    then show "bit x n = bit y n"
      by (simp add: bit_simps)
  qed
qed simp

lemma length_htonl: "length (htonl_bytes x) \<le> 4"
  by (simp add: htonl_bytes_def)

lemma hex_word_inj:
  "human_readable_evp (htonl_bytes x) 4 = human_readable_evp (htonl_bytes y) 4 \<longleftrightarrow> x = y"
proof
  assume "human_readable_evp (htonl_bytes x) 4 = human_readable_evp (htonl_bytes y) 4"
  then have "unhex (human_readable_evp (htonl_bytes x) 4) = unhex (human_readable_evp (htonl_bytes y) 4)"
    by simp
  then have "take 4 (htonl_bytes x) = take 4 (htonl_bytes y)"
    by (simp only: human_readable_evp_def unhex_concat)
  then show "x = y"
    by (simp only: htonl_inj take_all length_htonl)
qed simp


section \<open>The recorded values\<close>

abbreviation hex_word :: "32 word \<Rightarrow> string" where
  "hex_word x \<equiv> human_readable_evp (htonl_bytes x) 4"

text \<open>The life of a state: constructed, fed with the buffers of a file, finalised.\<close>

definition digest_file :: "'md cklib \<Rightarrow> 32 word \<Rightarrow> 32 word \<Rightarrow> bytes list \<Rightarrow> 'md ChecksumState" where
  "digest_file D j ds buffers = Finalize D (foldl (Update D) (ChecksumState_new D j ds) buffers)"

lemma Finalize_members:
  "m_digests (Finalize D st) = m_digests st"
  "m_adler32 (Finalize D st) = m_adler32 st"
  "m_crc32 (Finalize D st) = m_crc32 st"
  "m_chunks (Finalize D st) = m_chunks st"
  "has (m_digests st) CKSUM \<Longrightarrow>
     m_cksum (Finalize D st) = NOT (cksum_length (m_cksum st) (m_offset st))"
  "has (m_digests st) MD5 \<Longrightarrow> m_md5_value (Finalize D st) = evp_final D (m_md5 st)"
  "has (m_digests st) MD5 \<Longrightarrow> m_md5_length (Finalize D st) = length (evp_final D (m_md5 st))"
  "has (m_digests st) CVMFS \<Longrightarrow> m_graft (Finalize D st) =
     graft_text (m_offset st) (concat (map hex_byte (evp_final D (m_file_sha1 st)))) (m_chunks st)"
  by (simp_all add: Finalize_def Let_def human_readable_all)

lemma digest_file_represents:
  assumes "running_digests D" and "\<forall>b \<in> set buffers. length b < 2 ^ 32"
  shows "represents D j ds (concat buffers) (foldl (Update D) (ChecksumState_new D j ds) buffers)"
  using Updates_represent [OF assms represents_new [OF assms(1)]] by simp

lemma has_flags [simp]:
  "has CKSUM CKSUM" "has CRC32 CRC32" "has ADLER32 ADLER32" "has MD5 MD5" "has CVMFS CVMFS"
  "\<not> has CRC32 CKSUM" "\<not> has ADLER32 CKSUM" "\<not> has MD5 CKSUM" "\<not> has CVMFS CKSUM"
  "\<not> has ADLER32 CRC32" "\<not> has MD5 CRC32" "\<not> has CVMFS CRC32"
  "\<not> has MD5 ADLER32" "\<not> has CVMFS ADLER32" "\<not> has CVMFS MD5"
  by (simp_all add: has_def)

lemma digest_file_values:
  assumes "running_digests D" and "\<forall>b \<in> set buffers. length b < 2 ^ 32"
  shows "has ds CKSUM \<Longrightarrow> Get_digest (digest_file D j ds buffers) CKSUM
      = show_nat (unat (posix_cksum (concat buffers)))"
    and "has ds ADLER32 \<Longrightarrow> Get_digest (digest_file D j ds buffers) ADLER32
      = hex_word (adler32 D (adler32_init D) (concat buffers))"
    and "has ds CRC32 \<Longrightarrow> Get_digest (digest_file D j ds buffers) CRC32
      = hex_word (zcrc32 D j (concat buffers))"
    and "has ds MD5 \<Longrightarrow> Get_digest (digest_file D j ds buffers) MD5
      = concat (map hex_byte (EVP_DigestFinal_ex D (EVP_DigestUpdate D (EVP_md5 D) (concat buffers))))"
    and "has ds CVMFS \<Longrightarrow> Get_digest (digest_file D j ds buffers) CVMFS
      = graft_text (length (concat buffers)) (sha1_hex D (concat buffers)) (full_chunks D (concat buffers))"
  using digest_file_represents [OF assms, of j ds]
  by (simp_all add: digest_file_def Get_digest_def Finalize_members represents_def
      human_readable_all evp_final_def sha1_hex_def posix_cksum_def cksum_length_foldl cksum_loop_foldl)

text \<open>
  The chunks a complete graft lists: the full ones and, when the file does not end with one, the rest of the
  file as the last.
\<close>

definition tail_chunk :: "'md cklib \<Rightarrow> bytes \<Rightarrow> CvmfsChunk" where
  "tail_chunk D data = \<lparr>c_sha1 = sha1_hex D (open_chunk data), c_offset = length data div CVMFS_CHUNK_SIZE * CVMFS_CHUNK_SIZE\<rparr>"

definition all_chunks :: "'md cklib \<Rightarrow> bytes \<Rightarrow> CvmfsChunk list" where
  "all_chunks D data = full_chunks D data @ (if open_chunk data = [] then [] else [tail_chunk D data])"

lemma graft_complete:
  assumes "length data < CVMFS_CHUNK_SIZE \<or> length data mod CVMFS_CHUNK_SIZE = 0"
  shows "graft_text n sha1 (all_chunks D data) = graft_text n sha1 (full_chunks D data)"
proof -
  have "open_chunk data = []" if "length data mod CVMFS_CHUNK_SIZE = 0"
    using that length_open_chunk [of data] by simp
  with assms show ?thesis by (auto simp: all_chunks_def full_chunks_def graft_text_def)
qed

text \<open>
  C3. The POSIX cksum, Adler-32 and MD5 that are recorded for a file depend on its bytes only, not on how they
  were cut into buffers, and are those of the file: the cksum in decimal, Adler-32 from zlib's initial value
  and MD5 in hexadecimal.  The CVMFS graft too depends on the bytes only; it lists the full chunks, and so is
  the complete graft of a file that is smaller than a chunk or ends with one.  The CRC-32 is zlib's, continued
  from \<open>j\<close>, the value that the memory of the object held: it is no function of the file.
\<close>

theorem digests_of_file:
  assumes "running_digests D" and "\<forall>b \<in> set buffers. length b < 2 ^ 32" and "concat buffers = data"
  shows "(has ds CKSUM \<longrightarrow> Get_digest (digest_file D j ds buffers) CKSUM
             = show_nat (unat (posix_cksum data))) \<and>
         (has ds ADLER32 \<longrightarrow> Get_digest (digest_file D j ds buffers) ADLER32
             = hex_word (adler32 D (adler32_init D) data)) \<and>
         (has ds MD5 \<longrightarrow> Get_digest (digest_file D j ds buffers) MD5
             = concat (map hex_byte (EVP_DigestFinal_ex D (EVP_DigestUpdate D (EVP_md5 D) data)))) \<and>
         (has ds CRC32 \<longrightarrow> Get_digest (digest_file D j ds buffers) CRC32 = hex_word (zcrc32 D j data)) \<and>
         (has ds CVMFS \<longrightarrow> Get_digest (digest_file D j ds buffers) CVMFS
             = graft_text (length data) (sha1_hex D data) (full_chunks D data)) \<and>
         (has ds CVMFS \<and> (length data < CVMFS_CHUNK_SIZE \<or> length data mod CVMFS_CHUNK_SIZE = 0) \<longrightarrow>
            Get_digest (digest_file D j ds buffers) CVMFS
             = graft_text (length data) (sha1_hex D data) (all_chunks D data))"
  using digest_file_values [OF assms(1,2)] assms(3) graft_complete [of data _ _ D] by auto

text \<open>A concrete digest library for the examples: polynomial sums, and contexts that keep their input.\<close>

definition sum_digest :: "32 word \<Rightarrow> bytes \<Rightarrow> 32 word" where
  "sum_digest a xs = foldl (\<lambda>a c. 31 * a + of_char c) a xs"

definition example_digests :: "bytes cklib" where
  "example_digests = \<lparr>adler32_init = 1, adler32 = sum_digest, zcrc32 = sum_digest,
     EVP_md5 = ''m'', EVP_sha1 = ''s'', EVP_DigestUpdate = (@), EVP_DigestFinal_ex = take 4\<rparr>"

lemma running_example: "running_digests example_digests"
  by (simp add: running_digests_def example_digests_def sum_digest_def)

theorem Update_represents_witness:
  "represents example_digests 7 ALL_DIGESTS ''abc'' (foldl (Update example_digests)
     (ChecksumState_new example_digests 7 ALL_DIGESTS) [''a'', ''bc''])"
  using Update_represents [OF running_example
      Update_represents_aux [OF running_example represents_new [OF running_example], of "''a''"],
      of "''bc''" 7 ALL_DIGESTS]
  by simp

theorem digests_of_file_witness:
  "Get_digest (digest_file example_digests 7 ALL_DIGESTS [''1234'', '''', ''56789'']) CKSUM
     = show_nat 930766865"
  using digests_of_file [OF running_example, of "[''1234'', '''', ''56789'']" "''123456789''" ALL_DIGESTS 7]
  by (simp add: posix_cksum_check has_def)

text \<open>
  C33. The CRC-32 that is recorded is not a function of the file: the member starts from whatever
  the memory held, and for an empty file two such values give the same text only if they are equal.
\<close>

theorem crc32_uninitialised:
  assumes "running_digests D" and "has ds CRC32"
  shows "Get_digest (digest_file D j ds []) CRC32 = Get_digest (digest_file D j' ds []) CRC32 \<longleftrightarrow> j = j'"
proof -
  from assms(1) have "zcrc32 D x [] = x" for x by (simp add: running_digests_def)
  then show ?thesis
    using digest_file_values(3) [OF assms(1) _ assms(2), of "[]"] by (simp add: hex_word_inj)
qed

theorem crc32_uninitialised_witness:
  "Get_digest (digest_file example_digests 0 ALL_DIGESTS []) CRC32
     \<noteq> Get_digest (digest_file example_digests 7 ALL_DIGESTS []) CRC32"
  using crc32_uninitialised [OF running_example, of ALL_DIGESTS 0 7] by (simp add: has_def)

text \<open>The number of commas in a graft tells the number of its chunks.\<close>

lemma no_comma_show_nat [simp]: "count_list (show_nat n) (CHR '','') = 0"
proof (induction n rule: show_nat.induct)
  case (1 n)
  have "digit d \<noteq> CHR '',''" if "d < 10" for d using that by (simp add: digit_def char_of_neq_iff)
  with 1 show ?case by (subst show_nat.simps) simp
qed

lemma no_comma_hex [simp]: "count_list (concat (map hex_byte bs)) (CHR '','') = 0"
proof (induction bs)
  case (Cons b bs)
  have "hex_digit d \<noteq> CHR '',''" if "d < 16" for d using that by (simp add: hex_digit_def char_of_neq_iff)
  with Cons show ?case by (simp add: hex_byte_def Let_def less_mult_imp_div_less)
qed simp

lemma count_concat_map: "(\<And>x. x \<in> set xs \<Longrightarrow> count_list (f x) c = k) \<Longrightarrow> count_list (concat (map f xs)) c = k * length xs"
  by (induction xs) simp_all

lemma graft_commas:
  assumes "count_list sha1 (CHR '','') = 0" and "\<forall>c \<in> set chunks. count_list (c_sha1 c) (CHR '','') = 0"
  shows "count_list (graft_text n sha1 chunks) (CHR '','') = (if length chunks < 2 then 0 else 2 * (length chunks - 1))"
proof (cases "length chunks < 2")
  case True
  with assms(1) show ?thesis by (simp add: graft_text_def)
next
  case False
  then obtain c cs where c: "chunks = c # cs" by (cases chunks) auto
  have "count_list (concat (map (\<lambda>c. '','' @ show_nat (c_offset c)) cs)) (CHR '','') = 1 * length cs"
    by (rule count_concat_map) simp
  moreover have "count_list (concat (map (\<lambda>c. '','' @ c_sha1 c) cs)) (CHR '','') = 1 * length cs"
    using assms(2) c by (intro count_concat_map) simp
  ultimately show ?thesis using False assms c by (simp add: graft_text_def)
qed

text \<open>
  C34. The graft of a file of two full chunks or more that does not end with a full chunk leaves the rest of
  the file out: the text recorded lists the full chunks only, which end before the end of the file, and is not
  the complete graft, since the record built for the last chunk is never appended.
\<close>

theorem graft_omits_tail:
  assumes "running_digests D" and "\<forall>b \<in> set buffers. length b < 2 ^ 32" and "concat buffers = data"
    and "has ds CVMFS"
    and "2 * CVMFS_CHUNK_SIZE \<le> length data" and "length data mod CVMFS_CHUNK_SIZE \<noteq> 0"
  shows "Get_digest (digest_file D j ds buffers) CVMFS = graft_text (length data) (sha1_hex D data) (full_chunks D data) \<and>
    c_offset (last (full_chunks D data)) + CVMFS_CHUNK_SIZE < length data \<and>
    Get_digest (digest_file D j ds buffers) CVMFS \<noteq> graft_text (length data) (sha1_hex D data) (all_chunks D data)"
proof -
  let ?C = CVMFS_CHUNK_SIZE and ?g = "graft_text (length data) (sha1_hex D data)"
  have graft: "Get_digest (digest_file D j ds buffers) CVMFS = ?g (full_chunks D data)"
    using digest_file_values(5) [OF assms(1,2,4)] assms(3) by simp
  have q: "2 \<le> length data div ?C" using assms(5) by (simp add: less_eq_div_iff_mult_less_eq)
  have "length data div ?C * ?C + length data mod ?C = length data" by simp
  with assms(6) have "length data div ?C * ?C < length data" by linarith
  moreover have "c_offset (last (full_chunks D data)) + ?C = length data div ?C * ?C"
    using q next_chunk_offset [of D data] by (auto simp: full_chunks_def split: if_splits)
  moreover have "open_chunk data \<noteq> []" using assms(6) length_open_chunk [of data] by auto
  then have "length (all_chunks D data) = Suc (length data div ?C)" by (simp add: all_chunks_def)
  moreover have "\<forall>c \<in> set (all_chunks D data). count_list (c_sha1 c) (CHR '','') = 0"
    by (auto simp: all_chunks_def full_chunks_def tail_chunk_def sha1_hex_def)
  then have "count_list (?g (all_chunks D data)) (CHR '','') = 2 * (length (all_chunks D data) - 1)"
    "count_list (?g (full_chunks D data)) (CHR '','') = 2 * (length data div ?C - 1)"
    using q by (subst graft_commas; simp add: all_chunks_def sha1_hex_def)+
  ultimately have "?g (full_chunks D data) \<noteq> ?g (all_chunks D data)" using q by auto
  with graft \<open>length data div ?C * ?C < length data\<close> \<open>c_offset _ + ?C = _\<close> show ?thesis by simp
qed

theorem graft_omits_tail_witness:
  "Get_digest (digest_file example_digests 7 ALL_DIGESTS [replicate (2 * CVMFS_CHUNK_SIZE + 1) CHR ''x'']) CVMFS
     \<noteq> graft_text (2 * CVMFS_CHUNK_SIZE + 1) (sha1_hex example_digests (replicate (2 * CVMFS_CHUNK_SIZE + 1) CHR ''x''))
         (all_chunks example_digests (replicate (2 * CVMFS_CHUNK_SIZE + 1) CHR ''x''))"
proof -
  let ?b = "replicate (2 * CVMFS_CHUNK_SIZE + 1) CHR ''x''"
  have "length ?b < 2 ^ 32" by (simp add: CVMFS_CHUNK_SIZE_def)
  then have small: "\<forall>b \<in> set [?b]. length b < 2 ^ 32" by (simp only: list.set ball_simps simp_thms)
  have whole: "concat [?b] = ?b" by (simp only: concat.simps append_Nil2)
  have size: "2 * CVMFS_CHUNK_SIZE \<le> length ?b" "length ?b mod CVMFS_CHUNK_SIZE \<noteq> 0"
    by (simp_all add: CVMFS_CHUNK_SIZE_def)
  have "has ALL_DIGESTS CVMFS" by (simp add: has_def)
  from graft_omits_tail [OF running_example small whole this size, THEN conjunct2, THEN conjunct2, of 7]
  show ?thesis by (simp only: length_replicate simp_thms)
qed


section \<open>Digest contexts\<close>

text \<open>
  However the object is used, its digest contexts are destroyed once each: \<^verbatim>\<open>Update\<close> keeps them, \<^verbatim>\<open>Finalize\<close> destroys those
  it has and leaves the destructor nothing to do.
\<close>

lemma cvmfs_loop_context:
  "cvmfs_loop D total_bytes cur ctx chunks buf = (cur', ctx', chunks', rest) \<Longrightarrow> ctx' = None \<longleftrightarrow> ctx = None"
proof (induction D total_bytes cur ctx chunks buf rule: cvmfs_loop.induct)
  case (1 D total_bytes cur ctx chunks buf)
  then show ?case by (auto simp: cvmfs_loop.simps [of D total_bytes] Let_def split: if_splits)
qed

definition contexts_ok :: "'md ChecksumState \<Rightarrow> bool" where
  "contexts_ok st \<longleftrightarrow> (has (m_digests st) MD5 \<or> m_md5 st = None) \<and>
     (has (m_digests st) CVMFS \<or> m_file_sha1 st = None \<and> m_chunk_sha1 st = None)"

lemma Update_contexts:
  "m_digests (Update D st buffer) = m_digests st"
  "m_md5 (Update D st buffer) = None \<longleftrightarrow> m_md5 st = None"
  "m_file_sha1 (Update D st buffer) = None \<longleftrightarrow> m_file_sha1 st = None"
  "m_chunk_sha1 (Update D st buffer) = None \<longleftrightarrow> m_chunk_sha1 st = None"
proof -
  obtain cur ctx chunks rest where loop: "cvmfs_loop D (m_cur_chunk_bytes st + length buffer) (m_cur_chunk_bytes st)
      (m_chunk_sha1 st) (m_chunks st) buffer = (cur, ctx, chunks, rest)"
    by (metis prod_cases4)
  have "m_file_sha1 (Update D st buffer) = m_file_sha1 st" "m_chunk_sha1 (Update D st buffer) = m_chunk_sha1 st"
    if "\<not> has (m_digests st) CVMFS" using that by (simp_all add: Update_def Let_def)
  with Update_cvmfs(1,2) [OF _ loop] cvmfs_loop_context [OF loop] show
    "m_file_sha1 (Update D st buffer) = None \<longleftrightarrow> m_file_sha1 st = None"
    "m_chunk_sha1 (Update D st buffer) = None \<longleftrightarrow> m_chunk_sha1 st = None"
    by (cases "has (m_digests st) CVMFS"; simp)+
qed (simp_all add: Update_members)

lemma contexts_destroyed:
  "ChecksumState_delete (foldl (Update D) (ChecksumState_new D j ds) buffers) =
     (if has ds MD5 then 1 else 0) + (if has ds CVMFS then 2 else 0)"
  "ChecksumState_delete (digest_file D j ds buffers) = 0"
proof -
  have keep: "ChecksumState_delete (Update D st b) = ChecksumState_delete st"
    "contexts_ok st \<Longrightarrow> contexts_ok (Update D st b)" for st b
    by (simp_all add: ChecksumState_delete_def contexts_ok_def Update_contexts del: not_None_eq)
  have keep: "ChecksumState_delete (foldl (Update D) st buffers) = ChecksumState_delete st"
    "contexts_ok st \<Longrightarrow> contexts_ok (foldl (Update D) st buffers)" for st
    by (induction buffers arbitrary: st) (simp_all add: keep)
  from keep(1) show "ChecksumState_delete (foldl (Update D) (ChecksumState_new D j ds) buffers) =
      (if has ds MD5 then 1 else 0) + (if has ds CVMFS then 2 else 0)"
    by (simp add: ChecksumState_delete_def ChecksumState_new_def)
  have "contexts_ok (ChecksumState_new D j ds)" by (simp add: contexts_ok_def ChecksumState_new_def)
  from keep(2) [OF this] show "ChecksumState_delete (digest_file D j ds buffers) = 0"
    by (auto simp: ChecksumState_delete_def contexts_ok_def digest_file_def Finalize_def Let_def)
qed

end
