(* ===== verification/Hdfs_File.thy ===== *)
theory Hdfs_File
  imports Hdfs_Namespace Hdfs_ChecksumState
begin

text \<open>
  The class \<^verbatim>\<open>XrdHdfsFile\<close> (\<^verbatim>\<open>src/src/XrdHdfs.hh\<close>, \<^verbatim>\<open>src/src/XrdHdfs.cc\<close>): open, the read-ahead buffer,
  sequential writes with running checksums, attributes, and closing.  \<^verbatim>\<open>Close\<close> records the checksums
  through the checksum manager, which opens, writes and closes a file of its own; here that call is the
  argument \<open>setter\<close> of \<open>close_with\<close>, and the theory of the checksum manager closes the knot.

  The read buffer is memory: a function from addresses to bytes of which \<open>readbuf_size\<close> are
  allocated.  An access outside of it sets \<open>ub\<close>.  The loop that refills it retries interrupted calls
  without bound, so it is a \<^theory_text>\<open>partial_function\<close>: not returning is the value \<^term>\<open>None\<close>.  The mutex
  around the buffer is not modelled: an operation is one step.
\<close>

record 'md XrdHdfsFile =
  f_error :: errinfo
  m_fs :: hdfsFS
  fh :: hdfsFile
  f_fname :: cstr
  m_nextoff :: int
  readbuf :: "(nat \<Rightarrow> char) option"
  readbuf_size :: nat
  readbuf_offset :: int
  readbuf_len :: nat
  readbuf_bypassed :: "32 word"
  readbuf_misses :: "32 word"
  readbuf_hits :: "32 word"
  readbuf_partial_hits :: "32 word"
  readbuf_bytes_used :: "64 word"
  readbuf_bytes_loaded :: "64 word"
  m_state :: "'md ChecksumState option"

definition XrdHdfsFile_new :: "'md XrdHdfsFile" where
  "XrdHdfsFile_new = \<lparr>f_error = \<lparr>ei_code = 0, ei_text = []\<rparr>, m_fs = None, fh = None, f_fname = None,
     m_nextoff = 0, readbuf = None, readbuf_size = 0, readbuf_offset = 0, readbuf_len = 0,
     readbuf_bypassed = 0, readbuf_misses = 0, readbuf_hits = 0, readbuf_partial_hits = 0,
     readbuf_bytes_used = 0, readbuf_bytes_loaded = 0, m_state = None\<rparr>"

text \<open>\<^verbatim>\<open>Emsg\<close> on the file object's own \<^verbatim>\<open>error\<close> member.\<close>

definition file_Emsg ::
  "'w lib \<Rightarrow> int \<Rightarrow> string \<Rightarrow> cstr \<Rightarrow> 'md XrdHdfsFile \<Rightarrow> 'w sys \<Rightarrow> int \<times> 'md XrdHdfsFile" where
  "file_Emsg L ecode opn target f s = (Emsg_ret s, f\<lparr>f_error := Emsg_info L ecode opn target\<rparr>)"


section \<open>Open\<close>

definition Connect ::
  "'w lib \<Rightarrow> oucEnv \<Rightarrow> 'md XrdHdfsFile \<Rightarrow> 'w sys \<Rightarrow> bool \<times> 'md XrdHdfsFile \<times> 'w sys" where
  "Connect L client f s =
     (let s = (if m_fs f \<noteq> None then hadoop_disconnect (m_fs f) s else s);
          (fs, s) = hadoop_connect L (Some client) s
      in (fs \<noteq> None, f\<lparr>m_fs := fs\<rparr>, s))"

text \<open>The allocation and invalidation of the read buffer at the start of \<^verbatim>\<open>Open\<close>.\<close>

definition open_readbuf :: "'md XrdHdfsFile \<Rightarrow> 'w sys \<Rightarrow> 'md XrdHdfsFile \<times> 'w sys" where
  "open_readbuf f s =
     (let (f, s) = (case readbuf f of
            Some _ \<Rightarrow> (f, s)
          | None \<Rightarrow> (case alloc ReadBuf s of
              (True, s) \<Rightarrow> (f\<lparr>readbuf_size := 32768, readbuf := Some (junk s)\<rparr>, s)
            | (False, s) \<Rightarrow> (f\<lparr>readbuf_size := 0, readbuf := None\<rparr>, s)))
      in (f\<lparr>readbuf_offset := 0, readbuf_len := 0, readbuf_bypassed := 0, readbuf_misses := 0,
            readbuf_hits := 0, readbuf_partial_hits := 0, readbuf_bytes_used := 0,
            readbuf_bytes_loaded := 0\<rparr>, s))"

definition open_flags :: "int \<Rightarrow> int" where
  "open_flags openMode =
     (let m = openMode AND (O_RDONLY OR O_WRONLY OR O_RDWR);
          open_flag = (if m = O_RDONLY then O_RDONLY
                       else if m = O_WRONLY then O_WRONLY
                       else if m = O_RDWR then O_WRONLY
                       else O_RDONLY)
      in if openMode AND O_TRUNC \<noteq> 0 then O_TRUNC OR O_WRONLY else open_flag)"

text \<open>The error code of a failed \<^verbatim>\<open>hdfsOpenFile\<close>: the kind of object there, whatever \<open>errno\<close> was.\<close>

definition open_error :: "'w lib \<Rightarrow> hdfsFS \<Rightarrow> cstr \<Rightarrow> 'w sys \<Rightarrow> int \<times> 'w sys" where
  "open_error L fs fname s =
     (case path_info L fs fname s of
        (Some i, s) \<Rightarrow> (if mKind i = kObjectKindDirectory then EISDIR else EEXIST, free_info s)
      | (None, s) \<Rightarrow> (ENOENT, s))"

definition cksums_prefix :: string where
  "cksums_prefix = ''/cksums''"

definition Open ::
  "'w lib \<Rightarrow> 'md cklib \<Rightarrow> string \<Rightarrow> int \<Rightarrow> int \<Rightarrow> oucEnv \<Rightarrow> 'md XrdHdfsFile \<Rightarrow> 'w sys
     \<Rightarrow> int \<times> 'md XrdHdfsFile \<times> 'w sys" where
  "Open L D path openMode createMode client f s =
     (if fh f \<noteq> None then (- EINVAL, f, s)
      else
        let (fname, s) = GetRealPath path s;
            (f, s) = open_readbuf (f\<lparr>f_fname := fname\<rparr>) s;
            open_flag = open_flags openMode;
            (connected, f, s) = Connect L client f s
        in if \<not> connected then
             (case file_Emsg L EIO ''Failed to connect to HDFS'' (Some []) f s of (r, f) \<Rightarrow> (r, f, s))
           else
             (case open_file L (m_fs f) fname open_flag s of
                (None, s) \<Rightarrow> (case open_error L (m_fs f) fname s of (err_code, s) \<Rightarrow> (- err_code, f, s))
              | (Some h, s) \<Rightarrow>
                  (let f = f\<lparr>fh := Some h\<rparr>
                   in if open_flag AND O_WRONLY \<noteq> 0
                      then (case fname of
                              None \<Rightarrow> (XrdOssOK, f, s\<lparr>ub := True\<rparr>)
                            | Some p \<Rightarrow>
                                if \<not> strncmp_eq cksums_prefix p 7
                                then (XrdOssOK, f\<lparr>m_state := Some (ChecksumState_new D (junk32 s) ALL_DIGESTS)\<rparr>,
                                      acquire CksState s)
                                else (XrdOssOK, f, s))
                      else (XrdOssOK, f, s))))"


section \<open>Read\<close>

text \<open>Memory: a store of a byte sequence, and a load of \<open>n\<close> bytes.\<close>

definition blit :: "(nat \<Rightarrow> char) \<Rightarrow> nat \<Rightarrow> bytes \<Rightarrow> nat \<Rightarrow> char" where
  "blit m k bs i = (if k \<le> i \<and> i < k + length bs then bs ! (i - k) else m i)"

definition load :: "(nat \<Rightarrow> char) option \<Rightarrow> nat \<Rightarrow> nat \<Rightarrow> bytes" where
  "load m k n = (case m of Some a \<Rightarrow> map a [k..<k + n] | None \<Rightarrow> [])"

text \<open>A length passed to libhdfs is a 32-bit \<^verbatim>\<open>tSize\<close>; a sum of a signed and an unsigned 64-bit value is unsigned.\<close>

definition tSize :: "nat \<Rightarrow> int" where
  "tSize n = sint (word_of_nat n :: 32 word)"

definition u64 :: "int \<Rightarrow> int" where
  "u64 x = x mod 2 ^ 64"

text \<open>
  The refill loop of \<^verbatim>\<open>Read\<close>.  The first component of the result is false on the early return
  with an error.
\<close>

partial_function (option) fill_readbuf ::
  "'w lib \<Rightarrow> hdfsFS \<Rightarrow> hdfsFile \<Rightarrow> int \<Rightarrow> nat \<Rightarrow> (nat \<Rightarrow> char) \<Rightarrow> nat \<Rightarrow> 'w sys
     \<Rightarrow> (bool \<times> (nat \<Rightarrow> char) \<times> nat \<times> 'w sys) option" where
  "fill_readbuf L fs h offset bufsize buf len s =
     (if len < bufsize then
        (case run (hdfsPread L fs h (offset + int len) (tSize (bufsize - len))) (s\<lparr>errno := 0\<rparr>) of
           ((n, bs), s1) \<Rightarrow>
             (let buf' = blit buf len bs;
                  s' = s1\<lparr>ub := ub s1 \<or> bufsize < len + length bs\<rparr>
              in if n < 0 \<and> errno s' = EINTR then fill_readbuf L fs h offset bufsize buf' len s'
                 else if n < 0 \<or> (errno s' \<noteq> 0 \<and> n = 0) then Some (False, buf', len, s')
                 else if n = 0 then Some (True, buf', len, s')
                 else fill_readbuf L fs h offset bufsize buf' (len + nat n) s'))
      else Some (True, buf, len, s))"

text \<open>
  \<^verbatim>\<open>Read (buff, offset, blen)\<close>: the return value, the bytes stored from the start of \<^verbatim>\<open>buff\<close> on, the
  object and the state; one function for each of the three ways a request is served.
\<close>

definition read_bypass ::
  "'w lib \<Rightarrow> int \<Rightarrow> nat \<Rightarrow> 'md XrdHdfsFile \<Rightarrow> 'w sys \<Rightarrow> int \<times> bytes \<times> 'md XrdHdfsFile \<times> 'w sys" where
  "read_bypass L offset blen f s =
     (case run (hdfsPread L (m_fs f) (fh f) offset (tSize blen)) (s\<lparr>errno := 0\<rparr>) of
        ((n, bs), s) \<Rightarrow>
          (let nbytes = (if n = 0 \<and> errno s \<noteq> 0 then - 1 else n);
               f = f\<lparr>readbuf_bypassed := readbuf_bypassed f + 1\<rparr>
           in if nbytes < 0
              then (case file_Emsg L (errno s) ''read'' (f_fname f) f s of (r, f) \<Rightarrow> (r, bs, f, s))
              else (nbytes, bs, f, s)))"

definition read_hit ::
  "int \<Rightarrow> nat \<Rightarrow> 'md XrdHdfsFile \<Rightarrow> 'w sys \<Rightarrow> int \<times> bytes \<times> 'md XrdHdfsFile \<times> 'w sys" where
  "read_hit offset blen f s =
     (let off = nat (offset - readbuf_offset f)
      in (int blen, load (readbuf f) off blen,
          f\<lparr>readbuf_hits := readbuf_hits f + 1,
            readbuf_bytes_used := readbuf_bytes_used f + word_of_nat blen\<rparr>,
          s\<lparr>ub := ub s \<or> readbuf_size f < off + blen\<rparr>))"

text \<open>The part of a request the buffer holds, before it is refilled.\<close>

definition read_partial :: "int \<Rightarrow> 'md XrdHdfsFile \<Rightarrow> bytes \<times> 'md XrdHdfsFile" where
  "read_partial offset f =
     (if readbuf_offset f \<le> offset \<and> offset < readbuf_offset f + int (readbuf_len f)
      then let off = nat (offset - readbuf_offset f);
               nbytes = readbuf_len f - off
           in (load (readbuf f) off nbytes,
               f\<lparr>readbuf_partial_hits := readbuf_partial_hits f + 1,
                 readbuf_bytes_used := readbuf_bytes_used f + word_of_nat nbytes\<rparr>)
      else ([], f\<lparr>readbuf_misses := readbuf_misses f + 1\<rparr>))"

definition read_refill ::
  "'w lib \<Rightarrow> int \<Rightarrow> nat \<Rightarrow> 'md XrdHdfsFile \<Rightarrow> 'w sys
     \<Rightarrow> (int \<times> bytes \<times> 'md XrdHdfsFile \<times> 'w sys) option" where
  "read_refill L offset blen f s =
     (case read_partial offset f of (got, f) \<Rightarrow>
        let blen = blen - length got;
            offset = offset + int (length got);
            mem0 = (case readbuf f of Some m \<Rightarrow> m | None \<Rightarrow> junk s)
        in Option.bind (fill_readbuf L (m_fs f) (fh f) offset (readbuf_size f) mem0 0 s)
             (\<lambda>(ok, m, len, s).
                let f = f\<lparr>readbuf := (case readbuf f of Some _ \<Rightarrow> Some m | None \<Rightarrow> None),
                          readbuf_offset := offset, readbuf_len := len\<rparr>
                in if \<not> ok
                   then (case file_Emsg L (errno s) ''read'' (f_fname f) f s of
                           (r, f) \<Rightarrow> Some (r, got, f, s))
                   else let bytes_to_copy = (if len < blen then len else blen)
                        in Some (int (length got + bytes_to_copy), got @ load (readbuf f) 0 bytes_to_copy,
                                 f\<lparr>readbuf_bytes_loaded :=
                                     readbuf_bytes_loaded f + word_of_nat (len - bytes_to_copy)\<rparr>, s)))"

definition Read ::
  "'w lib \<Rightarrow> int \<Rightarrow> nat \<Rightarrow> 'md XrdHdfsFile \<Rightarrow> 'w sys
     \<Rightarrow> (int \<times> bytes \<times> 'md XrdHdfsFile \<times> 'w sys) option" where
  "Read L offset blen f s =
     (if readbuf_size f < blen then Some (read_bypass L offset blen f s)
      else if readbuf_offset f \<le> offset
              \<and> u64 (offset + int blen) \<le> u64 (readbuf_offset f + int (readbuf_len f))
      then Some (read_hit offset blen f s)
      else read_refill L offset blen f s)"


section \<open>Write\<close>

text \<open>
  \<^verbatim>\<open>Write (buff, offset, blen)\<close> with \<open>blen\<close> the length of the buffer.  The checksums are given the
  whole buffer, whatever \<^verbatim>\<open>hdfsWrite\<close> answered.
\<close>

definition Write ::
  "'w lib \<Rightarrow> 'md cklib \<Rightarrow> bytes \<Rightarrow> int \<Rightarrow> 'md XrdHdfsFile \<Rightarrow> 'w sys \<Rightarrow> int \<times> 'md XrdHdfsFile \<times> 'w sys" where
  "Write L D buff offset f s =
     (if offset \<noteq> m_nextoff f
      then (case file_Emsg L ENOTSUP ''Out-of-order writes not supported by HDFS.'' (f_fname f) f s of
              (r, f) \<Rightarrow> (r, f, s))
      else let (result, s) = run (hdfsWrite L (m_fs f) (fh f) buff (tSize (length buff))) s;
               f = (if 0 \<le> result then f\<lparr>m_nextoff := m_nextoff f + result\<rparr> else f);
               f = f\<lparr>m_state := map_option (\<lambda>st. Update D st buff) (m_state f)\<rparr>
           in (result, f, s))"


section \<open>Attributes, asynchronous requests, closing\<close>

definition Fstat :: "'w lib \<Rightarrow> nat \<Rightarrow> 'md XrdHdfsFile \<Rightarrow> 'w sys \<Rightarrow> int \<times> 'md XrdHdfsFile \<times> 'w sys" where
  "Fstat L buf f s =
     (case path_info L (m_fs f) (f_fname f) s of
        (None, s) \<Rightarrow> (case file_Emsg L (errno s) ''stat'' (f_fname f) f s of (r, f) \<Rightarrow> (r, f, s))
      | (Some i, s) \<Rightarrow> (XrdOssOK, f, free_info (put_stat buf i s)))"

text \<open>
  An asynchronous request: buffer, position, size, result, and whether \<^verbatim>\<open>doneRead\<close> or \<^verbatim>\<open>doneWrite\<close> was
  called.
\<close>

record XrdSfsAio =
  aio_buf :: bytes
  aio_offset :: int
  aio_nbytes :: nat
  aio_Result :: int
  aio_done :: bool

definition Read_aio ::
  "'w lib \<Rightarrow> XrdSfsAio \<Rightarrow> 'md XrdHdfsFile \<Rightarrow> 'w sys \<Rightarrow> (int \<times> XrdSfsAio \<times> 'md XrdHdfsFile \<times> 'w sys) option" where
  "Read_aio L aiop f s =
     map_option (\<lambda>(n, bs, f, s).
         (0, aiop\<lparr>aio_Result := n, aio_buf := bs @ drop (length bs) (aio_buf aiop), aio_done := True\<rparr>, f, s))
       (Read L (aio_offset aiop) (aio_nbytes aiop) f s)"

definition Write_aio ::
  "'w lib \<Rightarrow> 'md cklib \<Rightarrow> XrdSfsAio \<Rightarrow> 'md XrdHdfsFile \<Rightarrow> 'w sys \<Rightarrow> int \<times> XrdSfsAio \<times> 'md XrdHdfsFile \<times> 'w sys" where
  "Write_aio L D aiop f s =
     (case Write L D (take (aio_nbytes aiop) (aio_buf aiop)) (aio_offset aiop) f s of
        (n, f, s) \<Rightarrow> (0, aiop\<lparr>aio_Result := n, aio_done := True\<rparr>, f, s))"

text \<open>
  The operations defined in the class: what is not supported, the mapping (no address, length 0), the
  hint to read ahead, and reading raw data.
\<close>

definition Fsync :: int where "Fsync = - ENOTSUP"

definition Fsync_aio :: "XrdSfsAio \<Rightarrow> int" where "Fsync_aio a = - ENOTSUP"

definition Ftruncate :: "64 word \<Rightarrow> int" where "Ftruncate flen = - ENOTSUP"

definition getMmap :: "int \<times> nat option" where "getMmap = (0, None)"

definition Read_ahead :: "int \<Rightarrow> nat \<Rightarrow> int" where "Read_ahead fileOffset preread_sz = XrdOssOK"

definition ReadRaw ::
  "'w lib \<Rightarrow> int \<Rightarrow> nat \<Rightarrow> 'md XrdHdfsFile \<Rightarrow> 'w sys \<Rightarrow> (int \<times> bytes \<times> 'md XrdHdfsFile \<times> 'w sys) option" where
  "ReadRaw L fileOffset buffer_size f s = Read L fileOffset buffer_size f s"

text \<open>The steps of \<^verbatim>\<open>Close\<close> before the checksums: the handle and the read buffer.\<close>

definition close_handle ::
  "'w lib \<Rightarrow> 'md XrdHdfsFile \<Rightarrow> 'w sys \<Rightarrow> int \<times> 'md XrdHdfsFile \<times> 'w sys" where
  "close_handle L f s =
     (let (ret, f, s) = (if fh f \<noteq> None then
              (case close_file L (m_fs f) (fh f) s of
                 (r, s) \<Rightarrow>
                   if r \<noteq> 0
                   then (case file_Emsg L (errno s) ''close'' (f_fname f) f s of (ret, f) \<Rightarrow> (ret, f, s))
                   else (XrdOssOK, f, s))
            else (XrdOssOK, f, s))
      in (ret, f\<lparr>fh := None\<rparr>, s))"

definition close_readbuf :: "'md XrdHdfsFile \<Rightarrow> 'w sys \<Rightarrow> 'md XrdHdfsFile \<times> 'w sys" where
  "close_readbuf f s =
     (case readbuf f of
        None \<Rightarrow> (f, s)
      | Some _ \<Rightarrow> (f\<lparr>readbuf := None, readbuf_size := 0, readbuf_offset := 0, readbuf_len := 0\<rparr>,
                   release ReadBuf s))"

text \<open>
  \<^verbatim>\<open>Close\<close>, with \<open>setter\<close> for \<^verbatim>\<open>manager.Set (fname, *m_state)\<close>, whose return value is ignored.
\<close>

definition close_with ::
  "'w lib \<Rightarrow> 'md cklib \<Rightarrow> (cstr \<Rightarrow> 'md ChecksumState \<Rightarrow> 'w sys \<Rightarrow> (int \<times> 'w sys) option)
     \<Rightarrow> 'md XrdHdfsFile \<Rightarrow> 'w sys \<Rightarrow> (int \<times> 'md XrdHdfsFile \<times> 'w sys) option" where
  "close_with L D setter f s =
     (let (ret, f, s) = close_handle L f s;
          (f, s) = close_readbuf f s
      in Option.bind
           (case m_state f of
              None \<Rightarrow> Some (f, s)
            | Some st \<Rightarrow>
                map_option (\<lambda>s. (f\<lparr>m_state := None\<rparr>, release CksState s))
                  (if ret = XrdOssOK then map_option snd (setter (f_fname f) (Finalize D st) s) else Some s))
           (\<lambda>(f, s). Some (ret, f\<lparr>f_fname := None\<rparr>, free_str (f_fname f) s)))"

definition XrdHdfsFile_delete :: "'w lib \<Rightarrow> 'md XrdHdfsFile \<Rightarrow> 'w sys \<Rightarrow> 'w sys" where
  "XrdHdfsFile_delete L f s =
     (let s = (if m_fs f \<noteq> None \<and> fh f \<noteq> None then snd (close_file L (m_fs f) (fh f) s) else s);
          s = (if m_fs f \<noteq> None then hadoop_disconnect (m_fs f) s else s);
          s = free_str (f_fname f) s;
          s = (if readbuf f \<noteq> None then release ReadBuf s else s)
      in if m_state f \<noteq> None then release CksState s else s)"


section \<open>The read-ahead buffer\<close>

text \<open>
  What the source relies on of \<^verbatim>\<open>hdfsPread\<close>, for a file with contents \<open>data\<close>, in the worlds that satisfy
  \<open>P\<close>: it stores as many bytes as it reports, at most as many as asked for, and they are the file's;
  zero without an error is the end of the file; a call is interrupted only finitely often (\<open>mu\<close>
  decreases).  Short reads and errors are allowed.
\<close>

definition pread_contract ::
  "'w lib \<Rightarrow> hdfsFS \<Rightarrow> hdfsFile \<Rightarrow> bytes \<Rightarrow> ('w \<Rightarrow> bool) \<Rightarrow> ('w \<Rightarrow> nat) \<Rightarrow> bool" where
  "pread_contract L fs h data P mu \<longleftrightarrow>
     (\<forall>pos len w n bs e' w'.
        P w \<longrightarrow> 0 \<le> pos \<longrightarrow> 0 \<le> len \<longrightarrow> hdfsPread L fs h pos len 0 w = ((n, bs), e', w') \<longrightarrow>
          P w' \<and> mu w' \<le> mu w \<and> (n \<le> 0 \<and> \<bar>e'\<bar> = EINTR \<longrightarrow> mu w' < mu w) \<and>
          n \<le> len \<and> length bs = nat n \<and> bs = segment data (nat pos) (nat n) \<and>
          (n = 0 \<and> e' = 0 \<and> 0 < len \<longrightarrow> length data \<le> nat pos))"

text \<open>A file whose reads do not fail, apart from interruptions.\<close>

definition pread_reliable :: "'w lib \<Rightarrow> hdfsFS \<Rightarrow> hdfsFile \<Rightarrow> ('w \<Rightarrow> bool) \<Rightarrow> bool" where
  "pread_reliable L fs h P \<longleftrightarrow>
     (\<forall>pos len w n bs e' w'.
        P w \<longrightarrow> 0 \<le> pos \<longrightarrow> 0 \<le> len \<longrightarrow> hdfsPread L fs h pos len 0 w = ((n, bs), e', w') \<longrightarrow>
          (n < 0 \<longrightarrow> e' = EINTR) \<and> (n = 0 \<longrightarrow> e' = 0))"

lemma pread_contractD:
  assumes "pread_contract L fs h data P mu" "P w" "0 \<le> pos" "0 \<le> len"
    "hdfsPread L fs h pos len 0 w = ((n, bs), e', w')"
  shows "P w'" "mu w' \<le> mu w" "n \<le> 0 \<Longrightarrow> \<bar>e'\<bar> = EINTR \<Longrightarrow> mu w' < mu w" "n \<le> len" "length bs = nat n"
    "bs = segment data (nat pos) (nat n)" "n = 0 \<Longrightarrow> e' = 0 \<Longrightarrow> 0 < len \<Longrightarrow> length data \<le> nat pos"
  using assms unfolding pread_contract_def by blast+

lemma pread_reliableD:
  assumes "pread_reliable L fs h P" "P w" "0 \<le> pos" "0 \<le> len"
    "hdfsPread L fs h pos len 0 w = ((n, bs), e', w')"
  shows "n < 0 \<Longrightarrow> e' = EINTR" "n = 0 \<Longrightarrow> e' = 0"
  using assms unfolding pread_reliable_def by blast+

text \<open>
  The invariant of the buffer: it holds a segment of the file, inside the memory that is allocated.
\<close>

definition buf_inv :: "bytes \<Rightarrow> 'md XrdHdfsFile \<Rightarrow> bool" where
  "buf_inv data f \<longleftrightarrow>
     readbuf_len f \<le> readbuf_size f \<and> readbuf_size f \<le> 32768 \<and>
     (readbuf f = None \<longrightarrow> readbuf_size f = 0) \<and>
     0 \<le> readbuf_offset f \<and> readbuf_offset f < 2 ^ 63 \<and>
     load (readbuf f) 0 (readbuf_len f) = segment data (nat (readbuf_offset f)) (readbuf_len f)"

lemma tSize_small [simp]: "n < 2 ^ 31 \<Longrightarrow> tSize n = int n"
  by (simp add: tSize_def signed_of_nat signed_take_bit_int_eq_self)

lemma u64_small [simp]: "0 \<le> x \<Longrightarrow> x < 2 ^ 64 \<Longrightarrow> u64 x = x"
  by (simp add: u64_def)

lemma load_Some: "load (Some m) k n = map m [k..<k + n]"
  by (simp add: load_def)

lemma length_load [simp]: "length (load (Some m) k n) = n"
  by (simp add: load_def)

lemma map_blit: "map (blit m k bs) [0..<k + length bs] = map m [0..<k] @ bs"
  by (rule nth_equalityI) (auto simp: blit_def nth_append)

lemma load_segment:
  assumes "load m 0 N = segment data off N" "k + n \<le> N"
  shows "load m k n = segment data (off + k) n"
proof -
  have "load m k n = take n (drop k (load m 0 N))"
    using assms(2) by (auto simp: load_def drop_map take_map take_upt split: option.splits)
  also have "\<dots> = segment data (off + k) n"
    using assms by (simp add: segment_def drop_take min_def add.commute)
  finally show ?thesis .
qed

text \<open>The outcome of a refill that the contract guarantees; the loop always ends.\<close>

definition refilled ::
  "'w lib \<Rightarrow> hdfsFS \<Rightarrow> hdfsFile \<Rightarrow> bytes \<Rightarrow> ('w \<Rightarrow> bool) \<Rightarrow> ('w \<Rightarrow> nat) \<Rightarrow> int \<Rightarrow> nat \<Rightarrow> 'w sys
     \<Rightarrow> (bool \<times> (nat \<Rightarrow> char) \<times> nat \<times> 'w sys) option \<Rightarrow> bool" where
  "refilled L fs h data P mu offset bufsize s r \<longleftrightarrow>
     (\<exists>ok m len s'. r = Some (ok, m, len, s') \<and>
        P (world s') \<and> mu (world s') \<le> mu (world s) \<and> s' = s\<lparr>errno := errno s', world := world s'\<rparr> \<and>
        len \<le> bufsize \<and> map m [0..<len] = segment data (nat offset) len \<and>
        (ok \<longrightarrow> len = bufsize \<or> length data \<le> nat offset + len) \<and>
        (\<not> ok \<and> \<bar>errno s'\<bar> = EINTR \<longrightarrow> mu (world s') < mu (world s)) \<and>
        (pread_reliable L fs h P \<longrightarrow> ok))"

lemma refilled_step:
  assumes "refilled L fs h data P mu offset bufsize (s\<lparr>errno := e, world := w\<rparr>) r" and "mu w \<le> mu (world s)"
  shows "refilled L fs h data P mu offset bufsize s r"
  using assms unfolding refilled_def by fastforce

lemma fill_readbuf_correct:
  assumes C: "pread_contract L fs h data P mu" and "0 \<le> offset" and "bufsize < 2 ^ 31"
    and "P (world s)" and "len \<le> bufsize" and "map buf [0..<len] = segment data (nat offset) len"
  shows "refilled L fs h data P mu offset bufsize s (fill_readbuf L fs h offset bufsize buf len s)"
  using assms(4-6)
proof (induction "mu (world s) + (bufsize - len)" arbitrary: buf len s rule: less_induct)
  case less
  note prems = less.prems
  show ?case
  proof (cases "len < bufsize")
    case False
    then show ?thesis using prems by (subst fill_readbuf.simps) (auto simp: refilled_def)
  next
    case True
    obtain n bs e' w' where call:
      "hdfsPread L fs h (offset + int len) (int (bufsize - len)) 0 (world s) = ((n, bs), e', w')"
      by (metis prod.exhaust)
    have pos: "0 \<le> offset + int len" "0 \<le> int (bufsize - len)" "0 < int (bufsize - len)"
      "nat (offset + int len) = nat offset + len"
      using assms(2) True by simp_all
    note c = pread_contractD [OF C prems(1) pos(1,2) call]
    note rel = pread_reliableD [where P = P, OF _ prems(1) pos(1,2) call]
    let ?s1 = "s\<lparr>errno := e', world := w'\<rparr>" and ?buf = "blit buf len bs"
    have inside: "len + length bs \<le> bufsize" using c(4,5) True by linarith
    have filled: "map ?buf [0..<len + length bs] = segment data (nat offset) (len + length bs)"
      unfolding map_blit using prems(3) c(5,6) pos(4) segment_append by metis
    have unfold: "fill_readbuf L fs h offset bufsize buf len s =
       (if n < 0 \<and> e' = EINTR then fill_readbuf L fs h offset bufsize ?buf len ?s1
        else if n < 0 \<or> (e' \<noteq> 0 \<and> n = 0) then Some (False, ?buf, len, ?s1)
        else if n = 0 then Some (True, ?buf, len, ?s1)
        else fill_readbuf L fs h offset bufsize ?buf (len + nat n) ?s1)"
      using True inside assms(3) call by (subst fill_readbuf.simps) (simp add: run_def Let_def)
    consider "0 < n" | "n < 0" "e' = EINTR" | "n < 0 \<or> e' \<noteq> 0 \<and> n = 0" "\<not> (n < 0 \<and> e' = EINTR)"
      | "n = 0" "e' = 0" by linarith
    then show ?thesis
    proof cases
      case 1
      have "refilled L fs h data P mu offset bufsize ?s1
          (fill_readbuf L fs h offset bufsize ?buf (len + nat n) ?s1)"
        using 1 c(1,2,5) inside filled True by (intro less.hyps) simp_all
      from refilled_step [OF this c(2)] 1 show ?thesis unfolding unfold by simp
    next
      case 2
      have "refilled L fs h data P mu offset bufsize ?s1 (fill_readbuf L fs h offset bufsize ?buf len ?s1)"
        using 2 c(1,3,5) prems(2) filled by (intro less.hyps) simp_all
      from refilled_step [OF this c(2)] 2 show ?thesis unfolding unfold by simp
    next
      case 3
      then have "bs = []" using c(5) by auto
      with 3 filled have "map ?buf [0..<len] = segment data (nat offset) len" by simp
      moreover have "\<not> pread_reliable L fs h P" using rel 3 by blast
      moreover have "\<bar>e'\<bar> = EINTR \<longrightarrow> mu w' < mu (world s)" using 3(1) c(3) by linarith
      ultimately show ?thesis
        unfolding unfold if_not_P [OF 3(2)] if_P [OF 3(1)]
        using c(1,2) prems(2) by (auto simp: refilled_def)
    next
      case 4
      then have "bs = []" "length data \<le> nat offset + len" using c(5,7) pos(3,4) by auto
      with 4 filled c(1,2) prems(2) show ?thesis unfolding unfold by (auto simp: refilled_def)
    qed
  qed
qed

text \<open>What \<^verbatim>\<open>Read\<close> promises of a value \<open>n\<close> and the bytes stored; a negative \<open>n\<close> is an error.\<close>

definition slice :: "bytes \<Rightarrow> int \<Rightarrow> nat \<Rightarrow> int \<Rightarrow> bytes \<Rightarrow> bool" where
  "slice data offset blen n bs \<longleftrightarrow>
     (0 \<le> n \<longrightarrow> n \<le> int blen \<and> length bs = nat n \<and> bs = segment data (nat offset) (nat n) \<and>
        (n = 0 \<and> 0 < blen \<longrightarrow> length data \<le> nat offset))"

definition read_served ::
  "'w lib \<Rightarrow> bytes \<Rightarrow> ('w \<Rightarrow> bool) \<Rightarrow> ('w \<Rightarrow> nat) \<Rightarrow> int \<Rightarrow> nat \<Rightarrow> 'md XrdHdfsFile \<Rightarrow> 'w sys
     \<Rightarrow> (int \<times> bytes \<times> 'md XrdHdfsFile \<times> 'w sys) option \<Rightarrow> bool" where
  "read_served L data P mu offset blen f s r \<longleftrightarrow>
     (\<exists>n bs f' s'. r = Some (n, bs, f', s') \<and> slice data offset blen n bs \<and> buf_inv data f' \<and>
        m_fs f' = m_fs f \<and> fh f' = fh f \<and> f_fname f' = f_fname f \<and> m_state f' = m_state f \<and>
        m_nextoff f' = m_nextoff f \<and>
        readbuf_size f' = readbuf_size f \<and> (readbuf f' = None \<longleftrightarrow> readbuf f = None) \<and>
        P (world s') \<and> mu (world s') \<le> mu (world s) \<and> s' = s\<lparr>errno := errno s', world := world s'\<rparr> \<and>
        (pread_reliable L (m_fs f) (fh f) P \<and> blen \<le> readbuf_size f \<longrightarrow>
           n = int (min blen (length data - nat offset))) \<and>
        (pread_reliable L (m_fs f) (fh f) P \<longrightarrow> 0 \<le> n \<or> n = - EINTR) \<and>
        (n = - EINTR \<longrightarrow> mu (world s') < mu (world s)))"

lemma slice_error: "slice data offset blen (Emsg_ret s) bs"
  using Emsg_ret_negative [of s] by (simp add: slice_def)

lemma Emsg_ret_EINTR: "Emsg_ret s = - EINTR \<Longrightarrow> errno s = EINTR \<or> errno s = - EINTR"
  by (auto simp: Emsg_ret_def split: if_splits)

lemma buf_inv_cong:
  assumes "readbuf f' = readbuf f" "readbuf_size f' = readbuf_size f" "readbuf_len f' = readbuf_len f"
    "readbuf_offset f' = readbuf_offset f"
  shows "buf_inv data f' = buf_inv data f"
  using assms by (simp add: buf_inv_def)

lemma read_bypass_served:
  assumes C: "pread_contract L (m_fs f) (fh f) data P mu" and "buf_inv data f" and "P (world s)"
    and "0 \<le> offset" and "blen < 2 ^ 31" and "readbuf_size f < blen"
  shows "read_served L data P mu offset blen f s (Some (read_bypass L offset blen f s))"
proof -
  obtain n bs e' w' where call:
    "hdfsPread L (m_fs f) (fh f) offset (int blen) 0 (world s) = ((n, bs), e', w')" by (metis prod.exhaust)
  have "0 \<le> int blen" by simp
  note c = pread_contractD [OF C assms(3,4) this call]
  have int: "mu w' < mu (world s)" if "n \<le> 0" "Emsg_ret (s\<lparr>errno := e', world := w'\<rparr>) = - EINTR"
    using that c(3) Emsg_ret_EINTR [OF that(2)] by auto
  have rel: "n < 0 \<and> e' = EINTR" if "pread_reliable L (m_fs f) (fh f) P" "n < 0 \<or> n = 0 \<and> e' \<noteq> 0"
    using that pread_reliableD [OF that(1) assms(3,4) \<open>0 \<le> int blen\<close> call] by auto
  have inv: "buf_inv data (f\<lparr>readbuf_bypassed := x\<rparr>)" "buf_inv data (f\<lparr>readbuf_bypassed := x, f_error := y\<rparr>)" for x y
    using assms(2) by (simp_all add: buf_inv_def)
  show ?thesis
  proof (cases "n < 0 \<or> n = 0 \<and> e' \<noteq> 0")
    case True
    then show ?thesis
      using call assms(5,6) c(1,2) int inv rel
      by (auto simp: read_served_def read_bypass_def run_def file_Emsg_def Let_def slice_def Emsg_ret_def)
  next
    case False
    then show ?thesis
      using call assms(5,6) c inv
      by (auto simp: read_served_def read_bypass_def run_def Let_def slice_def)
  qed
qed

lemma read_hit_served:
  assumes "buf_inv data f" and "P (world s)" and "readbuf_offset f \<le> offset"
    and "offset + int blen \<le> readbuf_offset f + int (readbuf_len f)"
  shows "read_served L data P mu offset blen f s (Some (read_hit offset blen f s))"
proof -
  let ?off = "nat (offset - readbuf_offset f)"
  have len: "?off + blen \<le> readbuf_len f" using assms(3,4) by linarith
  have inv: "readbuf_len f \<le> readbuf_size f" "0 \<le> readbuf_offset f" "readbuf f = None \<longrightarrow> readbuf_size f = 0"
    "load (readbuf f) 0 (readbuf_len f) = segment data (nat (readbuf_offset f)) (readbuf_len f)"
    using assms(1) by (simp_all add: buf_inv_def)
  have "nat (readbuf_offset f) + ?off = nat offset" using assms(3) inv(2) by linarith
  then have bs: "load (readbuf f) ?off blen = segment data (nat offset) blen"
    using load_segment [OF inv(4) len] by simp
  have "length (load (readbuf f) ?off blen) = blen"
    using inv(1,3) len by (cases "readbuf f") (auto simp: load_def)
  with bs have "length (segment data (nat offset) blen) = blen" by simp
  with bs inv(1) len assms(1,2) show ?thesis
    by (auto simp: read_served_def read_hit_def slice_def buf_inv_def Let_def)
qed

text \<open>What the buffer contributes to a request that it cannot serve alone.\<close>

lemma read_partial_got:
  assumes "buf_inv data f" and "0 \<le> offset" and "read_partial offset f = (got, f')"
    and "\<not> (readbuf_offset f \<le> offset \<and> offset + int blen \<le> readbuf_offset f + int (readbuf_len f))"
  shows "got = segment data (nat offset) (length got)" and "length got \<le> blen"
    and "f' = f\<lparr>readbuf_partial_hits := readbuf_partial_hits f', readbuf_misses := readbuf_misses f',
               readbuf_bytes_used := readbuf_bytes_used f'\<rparr>"
proof -
  let ?off = "nat (offset - readbuf_offset f)"
  have inv: "readbuf_len f \<le> readbuf_size f" "0 \<le> readbuf_offset f" "readbuf f = None \<longrightarrow> readbuf_size f = 0"
    "load (readbuf f) 0 (readbuf_len f) = segment data (nat (readbuf_offset f)) (readbuf_len f)"
    using assms(1) by (simp_all add: buf_inv_def)
  show "f' = f\<lparr>readbuf_partial_hits := readbuf_partial_hits f', readbuf_misses := readbuf_misses f',
               readbuf_bytes_used := readbuf_bytes_used f'\<rparr>"
    using assms(3) by (auto simp: read_partial_def Let_def split: if_splits)
  have "got = segment data (nat offset) (length got) \<and> length got \<le> blen"
  proof (cases "readbuf_offset f \<le> offset \<and> offset < readbuf_offset f + int (readbuf_len f)")
    case True
    have off: "nat (readbuf_offset f) + ?off = nat offset" "?off + (readbuf_len f - ?off) \<le> readbuf_len f"
      using True inv(2) by linarith+
    have got: "got = load (readbuf f) ?off (readbuf_len f - ?off)"
      using True assms(3) by (simp add: read_partial_def Let_def)
    have len: "length got = readbuf_len f - ?off"
      using got True inv(1,3) by (cases "readbuf f") (auto simp: load_def)
    have "got = segment data (nat offset) (length got)"
      using load_segment [OF inv(4) off(2)] off(1) len by (simp only: got)
    moreover have "length got \<le> blen" using len True assms(4) by linarith
    ultimately show ?thesis by simp
  next
    case False
    with assms(3) show ?thesis by (auto simp: read_partial_def)
  qed
  then show "got = segment data (nat offset) (length got)" "length got \<le> blen" by auto
qed


text \<open>The bytes of a request put together from the old and the new contents of the buffer.\<close>

lemma refill_bytes:
  assumes "got = segment data off (length got)" "length got \<le> blen"
    and "load m 0 len = segment data (off + length got) len" "length (load m 0 len) = len"
    and "blen \<le> bufsize" "len = bufsize \<or> length data \<le> off + length got + len"
    and k: "k = min len (blen - length got)"
  shows "got @ load m 0 k = segment data off (length got + k)" "length (load m 0 k) = k"
    "length got + k = min blen (length data - off)"
proof -
  have copy: "load m 0 k = segment data (off + length got) k"
    using load_segment [OF assms(3), of 0 k] by (simp add: k)
  then show bytes: "got @ load m 0 k = segment data off (length got + k)"
    using assms(1) segment_append by metis
  show len: "length (load m 0 k) = k"
    using assms(4) by (cases m) (auto simp: load_def k)
  have "length got + k \<le> length data - off"
    using arg_cong [OF bytes, of length] len by simp
  with assms(2,5,6) show "length got + k = min blen (length data - off)"
    unfolding k by linarith
qed

lemma read_refill_served:
  assumes C: "pread_contract L (m_fs f) (fh f) data P mu" and inv: "buf_inv data f" and "P (world s)"
    and "0 \<le> offset" and "offset + int blen < 2 ^ 63" and "blen \<le> readbuf_size f"
    and "\<not> (readbuf_offset f \<le> offset \<and> offset + int blen \<le> readbuf_offset f + int (readbuf_len f))"
  shows "read_served L data P mu offset blen f s (read_refill L offset blen f s)"
proof -
  obtain got f1 where part: "read_partial offset f = (got, f1)" by fastforce
  note got = read_partial_got [OF inv assms(4) part assms(7)]
  define off1 where "off1 = offset + int (length got)"
  define buf where "buf = (case readbuf f of Some m \<Rightarrow> m | None \<Rightarrow> junk s)"
  have off1: "0 \<le> off1" "off1 < 2 ^ 63" "nat off1 = nat offset + length got"
    using assms(4,5) got(2) by (simp_all add: off1_def nat_add_distrib)
  have size: "readbuf_size f < 2 ^ 31" "readbuf_size f \<le> 32768" "readbuf f = None \<longrightarrow> readbuf_size f = 0"
    using inv by (simp_all add: buf_inv_def)
  have f1: "m_fs f1 = m_fs f" "fh f1 = fh f" "readbuf f1 = readbuf f" "readbuf_size f1 = readbuf_size f"
    "f_fname f1 = f_fname f" "m_state f1 = m_state f" "m_nextoff f1 = m_nextoff f"
    by (subst got(3), simp)+
  have "refilled L (m_fs f) (fh f) data P mu off1 (readbuf_size f) s
      (fill_readbuf L (m_fs f) (fh f) off1 (readbuf_size f) buf 0 s)"
    using fill_readbuf_correct [OF C off1(1) size(1) assms(3), of 0 buf] by simp
  then obtain ok m len s' where fill:
      "fill_readbuf L (m_fs f) (fh f) off1 (readbuf_size f) buf 0 s = Some (ok, m, len, s')"
    and P: "P (world s')" "mu (world s') \<le> mu (world s)"
    and s': "s' = s\<lparr>errno := errno s', world := world s'\<rparr>"
    and len: "len \<le> readbuf_size f" "map m [0..<len] = segment data (nat off1) len"
    and eof: "ok \<longrightarrow> len = readbuf_size f \<or> length data \<le> nat off1 + len"
    and int: "\<not> ok \<and> \<bar>errno s'\<bar> = EINTR \<longrightarrow> mu (world s') < mu (world s)"
    and rel: "pread_reliable L (m_fs f) (fh f) P \<longrightarrow> ok"
    unfolding refilled_def by blast
  define k where "k = min len (blen - length got)"
  define f2 where "f2 = f1\<lparr>readbuf := (case readbuf f of Some _ \<Rightarrow> Some m | None \<Rightarrow> None),
      readbuf_offset := off1, readbuf_len := len\<rparr>"
  have load2: "load (readbuf f2) 0 len = segment data (nat off1) len"
    using len size(3) by (auto simp: f2_def load_def split: option.splits)
  have inv2: "buf_inv data f2"
    using load2 len(1) size off1 by (auto simp: buf_inv_def f2_def f1 split: option.splits)
  have lenl: "length (load (readbuf f2) 0 len) = len"
    using len(1) size(3) by (cases "readbuf f") (auto simp: f2_def load_def)
  have refill: "read_refill L offset blen f s =
      (if \<not> ok then (case file_Emsg L (errno s') ''read'' (f_fname f2) f2 s' of (r, f) \<Rightarrow> Some (r, got, f, s'))
       else Some (int (length got + k), got @ load (readbuf f2) 0 k,
              f2\<lparr>readbuf_bytes_loaded := readbuf_bytes_loaded f2 + word_of_nat (len - k)\<rparr>, s'))"
    using fill by (simp add: read_refill_def part f1 off1_def [symmetric] buf_def [symmetric]
        f2_def [symmetric] k_def min_def Let_def split: option.splits)
  show ?thesis
  proof (cases ok)
    case False
    have "Emsg_ret s' = - EINTR \<Longrightarrow> mu (world s') < mu (world s)"
      using int False Emsg_ret_EINTR [of s'] by auto
    then show ?thesis
      unfolding refill using False P s' inv2 rel
      by (auto simp: read_served_def file_Emsg_def slice_error f1 f2_def buf_inv_def split: option.splits)
  next
    case True
    have "len = readbuf_size f \<or> length data \<le> nat offset + length got + len"
      using eof True off1(3) by simp
    note bytes = refill_bytes [OF got(1,2) load2 [unfolded off1(3)] lenl assms(6) this k_def]
    have "length got + k \<le> blen" using bytes(3) by simp
    with bytes show ?thesis
      unfolding refill using True P s' inv2
      by (auto simp: read_served_def slice_def f1 f2_def buf_inv_def split: option.splits)
  qed
qed


lemma Read_served:
  assumes C: "pread_contract L (m_fs f) (fh f) data P mu" and inv: "buf_inv data f" and P: "P (world s)"
    and "0 \<le> offset" and "offset + int blen < 2 ^ 63" and "blen < 2 ^ 31"
  shows "read_served L data P mu offset blen f s (Read L offset blen f s)"
proof (cases "readbuf_size f < blen")
  case True
  then show ?thesis using read_bypass_served [OF C inv P assms(4,6)] by (simp add: Read_def)
next
  case False
  have "u64 (offset + int blen) = offset + int blen"
    "u64 (readbuf_offset f + int (readbuf_len f)) = readbuf_offset f + int (readbuf_len f)"
    using inv assms(4,5) by (auto simp: buf_inv_def)
  then have "Read L offset blen f s =
      (if readbuf_offset f \<le> offset \<and> offset + int blen \<le> readbuf_offset f + int (readbuf_len f)
       then Some (read_hit offset blen f s) else read_refill L offset blen f s)"
    using False by (simp add: Read_def)
  then show ?thesis
    using False read_hit_served [where P = P, OF inv P, of offset blen] read_refill_served [OF C inv P assms(4,5)] by auto
qed

text \<open>
  C4. \<^verbatim>\<open>Read\<close> always returns, and never returns wrong data: whatever the state of the read-ahead buffer,
  a result \<open>n \<ge> 0\<close> means that exactly the \<open>n\<close> bytes of the file at the requested offset are in the
  caller's buffer and at most as many as it holds; zero for a non-empty request means that the offset
  is at or beyond the end of the file.  No byte outside the read buffer is touched, and the buffer
  still holds a segment of the file, so that the next request is served correctly too.  This covers
  short reads, interrupted calls and failures of \<^verbatim>\<open>hdfsPread\<close>.
\<close>

theorem Read_is_slice:
  assumes "pread_contract L (m_fs f) (fh f) data P mu" and "buf_inv data f" and "P (world s)"
    and "0 \<le> offset" and "offset + int blen < 2 ^ 63" and "blen < 2 ^ 31"
  shows "\<exists>n bs f' s'. Read L offset blen f s = Some (n, bs, f', s') \<and>
     (0 \<le> n \<longrightarrow> n \<le> int blen \<and> length bs = nat n \<and> bs = segment data (nat offset) (nat n) \<and>
        (n = 0 \<and> 0 < blen \<longrightarrow> length data \<le> nat offset)) \<and>
     buf_inv data f' \<and> P (world s') \<and> ub s' = ub s"
proof -
  from Read_served [OF assms] obtain n bs f' s' where
    "Read L offset blen f s = Some (n, bs, f', s')" "slice data offset blen n bs" "buf_inv data f'"
    "P (world s')" "s' = s\<lparr>errno := errno s', world := world s'\<rparr>"
    unfolding read_served_def by blast
  then show ?thesis unfolding slice_def by (metis sys.select_convs(6) sys.surjective sys.update_convs(1,7))
qed

text \<open>A sequence of requests: the values and bytes the caller gets.\<close>

fun reads ::
  "'w lib \<Rightarrow> (int \<times> nat) list \<Rightarrow> 'md XrdHdfsFile \<Rightarrow> 'w sys
     \<Rightarrow> ((int \<times> bytes) list \<times> 'md XrdHdfsFile \<times> 'w sys) option" where
  "reads L [] f s = Some ([], f, s)"
| "reads L ((offset, blen) # reqs) f s =
     (case Read L offset blen f s of
        None \<Rightarrow> None
      | Some (n, bs, f, s) \<Rightarrow> map_option (\<lambda>(rs, fs). ((n, bs) # rs, fs)) (reads L reqs f s))"

lemma reads_buffered:
  assumes "pread_contract L (m_fs f) (fh f) data P mu" and "pread_reliable L (m_fs f) (fh f) P"
    and "buf_inv data f" and "P (world s)"
    and "\<forall>(offset, blen) \<in> set reqs. 0 \<le> offset \<and> offset + int blen < 2 ^ 63 \<and> blen \<le> readbuf_size f"
  shows "\<exists>f' s'. reads L reqs f s = Some (map (\<lambda>(offset, blen).
      (int (min blen (length data - nat offset)), segment data (nat offset) blen)) reqs, f', s')"
  using assms
proof (induction reqs arbitrary: f s)
  case (Cons r reqs)
  obtain offset blen where r: "r = (offset, blen)" by fastforce
  have req: "0 \<le> offset" "offset + int blen < 2 ^ 63" "blen < 2 ^ 31" "blen \<le> readbuf_size f"
    using Cons.prems(3,5) by (auto simp: buf_inv_def r)
  from Read_served [OF Cons.prems(1,3,4) req(1-3)] obtain n bs f' s' where rd: "Read L offset blen f s = Some (n, bs, f', s')"
    and sl: "slice data offset blen n bs" and inv: "buf_inv data f'" "P (world s')"
    and f': "m_fs f' = m_fs f" "fh f' = fh f" "readbuf_size f' = readbuf_size f"
    and "pread_reliable L (m_fs f) (fh f) P \<and> blen \<le> readbuf_size f \<longrightarrow>
      n = int (min blen (length data - nat offset))"
    unfolding read_served_def by blast
  with Cons.prems(2) req(4) have n: "n = int (min blen (length data - nat offset))" by blast
  have "0 \<le> n" "nat n = min blen (length data - nat offset)" unfolding n by simp_all
  with sl have "bs = segment data (nat offset) (min blen (length data - nat offset))"
    unfolding slice_def by metis
  then have bs: "bs = segment data (nat offset) blen" by (simp only: segment_min)
  obtain f2 s2 where "reads L reqs f' s' = Some (map (\<lambda>(offset, blen).
      (int (min blen (length data - nat offset)), segment data (nat offset) blen)) reqs, f2, s2)"
    using Cons.IH [of f' s'] Cons.prems inv f' by auto
  with rd n bs show ?case by (simp add: r)
qed simp


section \<open>Opening\<close>

text \<open>
  \<^verbatim>\<open>Open\<close> leaves an empty buffer behind, which is a segment of any file.  \<open>buf_ok\<close> is what holds of an
  object that is new or was closed.
\<close>

definition buf_ok :: "'md XrdHdfsFile \<Rightarrow> bool" where
  "buf_ok f \<longleftrightarrow> readbuf_size f \<le> 32768 \<and> (readbuf f = None \<longrightarrow> readbuf_size f = 0)"

lemma buf_ok_new [simp]: "buf_ok XrdHdfsFile_new"
  by (simp add: buf_ok_def XrdHdfsFile_new_def)

lemma buf_inv_ok: "buf_inv data f \<Longrightarrow> buf_ok f"
  by (simp add: buf_ok_def buf_inv_def)

lemma open_readbuf_inv:
  assumes "open_readbuf f s = (f', s')" "buf_ok f"
  shows "buf_inv data f'"
  using assms
  by (auto simp: open_readbuf_def buf_inv_def buf_ok_def load_def alloc_def acquire_def
      split: option.splits bool.splits list.splits prod.splits)

lemma Open_buf_inv:
  assumes "Open L D path mode cm client f s = (r, f', s')" "buf_ok f" "fh f = None"
  shows "buf_inv data f'"
proof -
  obtain p s1 where p: "GetRealPath path s = (p, s1)" by fastforce
  obtain f1 s2 where rb: "open_readbuf (f\<lparr>f_fname := p\<rparr>) s1 = (f1, s2)" by fastforce
  have "buf_ok (f\<lparr>f_fname := p\<rparr>)" using assms(2) by (simp add: buf_ok_def)
  from open_readbuf_inv [OF rb this] have "buf_inv data f1" .
  moreover have "readbuf f' = readbuf f1 \<and> readbuf_size f' = readbuf_size f1 \<and>
      readbuf_len f' = readbuf_len f1 \<and> readbuf_offset f' = readbuf_offset f1"
    using assms(1,3) p rb
    by (auto simp: Open_def Connect_def file_Emsg_def hadoop_disconnect_def Let_def
        split: prod.splits option.splits if_splits)
  ultimately show ?thesis by (simp add: buf_inv_def)
qed

text \<open>
  C5. The read-ahead buffer is transparent.  After \<^verbatim>\<open>Open\<close>, any sequence of requests that fit the buffer,
  at any offsets and in any order, gives exactly what direct reads of the file would give, request
  by request: the bytes of the file there, fewer only at its end.  \<^verbatim>\<open>hdfsPread\<close> may return short and may
  be interrupted; the caller never notices.
\<close>

theorem reads_are_transparent:
  assumes "Open L D path mode cm client XrdHdfsFile_new s0 = (XrdOssOK, f, s)"
    and "pread_contract L (m_fs f) (fh f) data P mu" and "pread_reliable L (m_fs f) (fh f) P"
    and "P (world s)"
    and "\<forall>(offset, blen) \<in> set reqs. 0 \<le> offset \<and> offset + int blen < 2 ^ 63 \<and> blen \<le> readbuf_size f"
  shows "\<exists>f' s'. reads L reqs f s = Some (map (\<lambda>(offset, blen).
      (int (min blen (length data - nat offset)), segment data (nat offset) blen)) reqs, f', s')"
proof -
  have "buf_inv data f" by (rule Open_buf_inv [OF assms(1)]) (simp, simp add: XrdHdfsFile_new_def)
  then show ?thesis by (rule reads_buffered [OF assms(2,3) _ assms(4,5)])
qed

text \<open>
  C29. What \<^verbatim>\<open>Open\<close> of a closed object reports, in terms of what HDFS answered: without a connection it fails
  and the object stays closed; a refused \<^verbatim>\<open>hdfsOpenFile\<close> is \<open>ENOENT\<close>, \<open>EISDIR\<close> or
  \<open>EEXIST\<close> after what is found at the path, and the object stays closed; otherwise the handle is kept,
  and checksums are kept exactly for files opened for writing outside \<^verbatim>\<open>/cksums\<close>.
\<close>

theorem Open_outcome:
  assumes "fh f = None" and "m_state f = None" and "mem s = []"
    and "hadoop_connect L (Some client) (snd (open_readbuf f (acquire CString s))) = (fs, s1)"
    and "hdfsOpenFile L fs (Some (real_path s path)) (open_flags mode) (errno s1) (world s1) = (h, e, w)"
    and "hdfsGetPathInfo L fs (Some (real_path s path)) e w = (i, e', w')"
    and "Open L D path mode cm client f s = (r, f', s')"
  shows "(fs = None \<longrightarrow> r < 0 \<and> fh f' = None \<and> m_state f' = None) \<and>
         (fs \<noteq> None \<and> h = None \<longrightarrow> fh f' = None \<and> m_state f' = None \<and>
            r = (case i of None \<Rightarrow> - ENOENT
                 | Some i \<Rightarrow> if mKind i = kObjectKindDirectory then - EISDIR else - EEXIST)) \<and>
         (fs \<noteq> None \<and> h \<noteq> None \<longrightarrow> r = XrdOssOK \<and> fh f' = h \<and> m_fs f' = fs \<and>
            f_fname f' = Some (real_path s path) \<and>
            (m_state f' \<noteq> None \<longleftrightarrow> open_flags mode AND O_WRONLY \<noteq> 0 \<and>
               \<not> strncmp_eq cksums_prefix (real_path s path) 7))"
proof -
  obtain f1 s2 where rb: "open_readbuf (f\<lparr>f_fname := Some (real_path s path)\<rparr>) (acquire CString s) = (f1, s2)"
    by fastforce
  have s2: "s2 = snd (open_readbuf f (acquire CString s))"
    and f1: "m_state f1 = m_state f" "fh f1 = fh f" "f_fname f1 = Some (real_path s path)"
    using rb by (auto simp: open_readbuf_def split: option.splits bool.splits prod.splits)
  show ?thesis
    using assms(7,1,2) rb assms(4) [folded s2] assms(5,6) f1 GetRealPath_ok [OF assms(3)]
    by (auto simp: Open_def Connect_def file_Emsg_def hadoop_disconnect_def open_file_def
        open_error_def path_info_def free_info_def run_def Let_def Emsg_ret_negative
        split: prod.splits option.splits if_splits)
qed


section \<open>Writing\<close>

text \<open>
  C30. HDFS files are written in order: \<^verbatim>\<open>Write\<close> at any other offset than the end of what was written
  is refused with a negative value, sends nothing to HDFS and leaves the checksums alone; at that
  offset it passes the buffer on, returns what HDFS returned and moves on by what HDFS took.
\<close>

theorem Write_in_order:
  assumes "Write L D buff offset f s = (r, f', s')"
  shows "if offset \<noteq> m_nextoff f
         then r < 0 \<and> world s' = world s \<and> m_nextoff f' = m_nextoff f \<and> m_state f' = m_state f
         else (r, world s') = (case hdfsWrite L (m_fs f) (fh f) buff (tSize (length buff)) (errno s) (world s)
                                 of (r, e, w) \<Rightarrow> (r, w)) \<and>
              m_nextoff f' = m_nextoff f + max 0 r"
  using assms
  by (auto simp: Write_def file_Emsg_def run_def Let_def Emsg_ret_negative split: prod.splits if_splits)

text \<open>Successive writes, each at the offset where the last one ended, as a caller does it.\<close>

fun writes ::
  "'w lib \<Rightarrow> 'md cklib \<Rightarrow> bytes list \<Rightarrow> 'md XrdHdfsFile \<Rightarrow> 'w sys \<Rightarrow> int list \<times> 'md XrdHdfsFile \<times> 'w sys" where
  "writes L D [] f s = ([], f, s)"
| "writes L D (b # bs) f s =
     (case Write L D b (m_nextoff f) f s of
        (r, f, s) \<Rightarrow> (case writes L D bs f s of (rs, fs) \<Rightarrow> (r # rs, fs)))"

lemma writes_represent:
  assumes "running_digests D" and "\<forall>b \<in> set bufs. length b < 2 ^ 32"
    and "m_state f = Some st" and "represents D j ds data st" and "m_nextoff f = int (length data)"
    and "writes L D bufs f s = (map (\<lambda>b. int (length b)) bufs, f', s')"
  shows "\<exists>st'. m_state f' = Some st' \<and> represents D j ds (data @ concat bufs) st' \<and>
     m_nextoff f' = int (length (data @ concat bufs))"
  using assms(2-6)
proof (induction bufs arbitrary: f s data st)
  case (Cons b bufs)
  obtain r f1 s1 where w: "Write L D b (m_nextoff f) f s = (r, f1, s1)" by (metis prod.exhaust)
  obtain rs fs where ws: "writes L D bufs f1 s1 = (rs, fs)" by (metis surj_pair)
  have r: "r = int (length b)" and rs: "writes L D bufs f1 s1 = (map (\<lambda>b. int (length b)) bufs, f', s')"
    using Cons.prems(5) w ws by auto
  have f1: "m_state f1 = Some (Update D st b)" "m_nextoff f1 = int (length (data @ b))"
    using w r Cons.prems(2,4) by (auto simp: Write_def run_def Let_def split: prod.splits)
  have "represents D j ds (data @ b) (Update D st b)"
    using Cons.prems(1,3) by (intro Update_represents_aux [OF assms(1)]) simp_all
  from Cons.IH [OF _ f1(1) this f1(2) rs] Cons.prems(1) show ?case by simp
qed simp

text \<open>
  C17. If HDFS takes every buffer of a freshly opened file completely, the running checksums of the object are
  those of exactly the bytes that were written, in the order they went to the file, however they
  were cut into buffers, and the object expects the next write at the end of them.
\<close>

theorem writes_checksum_file:
  assumes "running_digests D" and "\<forall>b \<in> set bufs. length b < 2 ^ 32"
    and "Open L D path mode cm client XrdHdfsFile_new s0 = (XrdOssOK, f, s)" and "m_state f \<noteq> None"
    and "writes L D bufs f s = (map (\<lambda>b. int (length b)) bufs, f', s')"
  shows "\<exists>j st. m_state f' = Some st \<and> represents D j ALL_DIGESTS (concat bufs) st \<and>
     m_nextoff f' = int (length (concat bufs))"
proof -
  have "\<exists>j. m_state f = Some (ChecksumState_new D j ALL_DIGESTS)" "m_nextoff f = 0"
    using assms(3,4)
    by (auto simp: Open_def Connect_def file_Emsg_def open_readbuf_def XrdHdfsFile_new_def Let_def
        split: prod.splits option.splits if_splits bool.splits)
  then obtain j where j: "m_state f = Some (ChecksumState_new D j ALL_DIGESTS)" "m_nextoff f = int (length ([] :: bytes))"
    by auto
  from writes_represent [OF assms(1,2) j(1) represents_new [OF assms(1)] j(2) assms(5)] show ?thesis by auto
qed

text \<open>
  C35. A write of a non-empty buffer that HDFS takes only in part, or refuses, puts the checksums out of step with the file: they have
  consumed the whole buffer, so that from then on the length they stand for differs from the offset
  the object writes at.
\<close>

theorem partial_write_desyncs:
  assumes "running_digests D" and "m_state f = Some st" and "represents D j ds data st"
    and "m_nextoff f = int (length data)" and "length buff < 2 ^ 32"
    and "Write L D buff (m_nextoff f) f s = (r, f', s')" and "buff \<noteq> []" and "r \<noteq> int (length buff)"
  shows "\<exists>st'. m_state f' = Some st' \<and> represents D j ds (data @ buff) st' \<and>
     m_nextoff f' \<noteq> int (m_offset st')"
proof -
  have st': "m_state f' = Some (Update D st buff)" and nx: "m_nextoff f' = int (length data) + max 0 r"
    using assms(2,4,6) by (auto simp: Write_def run_def Let_def split: prod.splits)
  have rep: "represents D j ds (data @ buff) (Update D st buff)"
    by (rule Update_represents_aux [OF assms(1,3,5)])
  then have "int (m_offset (Update D st buff)) = int (length data) + int (length buff)"
    by (simp add: represents_def)
  with nx assms(7,8) st' rep show ?thesis by (auto simp: max_def)
qed


section \<open>What the object owns\<close>

text \<open>
  \<open>balanced s0\<close> says that everything taken since the state \<open>s0\<close> and not given back is held by the
  object, which holds one resource of each kind at most.
\<close>

definition held :: "'a option \<Rightarrow> int" where
  "held x = (case x of None \<Rightarrow> 0 | Some _ \<Rightarrow> 1)"

definition balanced :: "'w sys \<Rightarrow> 'md XrdHdfsFile \<times> 'w sys \<Rightarrow> bool" where
  "balanced s0 = (\<lambda>(f, s).
     live s CString = live s0 CString + held (f_fname f) \<and>
     live s OpenFile = live s0 OpenFile + held (fh f) \<and>
     live s ReadBuf = live s0 ReadBuf + held (readbuf f) \<and>
     live s CksState = live s0 CksState + held (m_state f) \<and>
     live s FileInfo = live s0 FileInfo \<and> live s FileObj = live s0 FileObj \<and>
     (m_fs f = None \<longrightarrow> fh f = None) \<and> (fh f = None \<longrightarrow> m_state f = None))"

lemma held_simps [simp]: "held None = 0" "held (Some x) = 1" "held (map_option g y) = held y"
  by (simp_all add: held_def split: option.splits)

lemma balanced_new: "balanced s (XrdHdfsFile_new, s)"
  by (simp add: balanced_def XrdHdfsFile_new_def)

lemma live_eq_iff: "live s = live s' \<longleftrightarrow>
    live s CString = live s' CString \<and> live s OpenFile = live s' OpenFile \<and> live s ReadBuf = live s' ReadBuf \<and>
    live s CksState = live s' CksState \<and> live s FileInfo = live s' FileInfo \<and> live s FileObj = live s' FileObj"
proof (intro iffI ext)
  fix r
  assume "live s CString = live s' CString \<and> live s OpenFile = live s' OpenFile \<and> live s ReadBuf = live s' ReadBuf \<and>
    live s CksState = live s' CksState \<and> live s FileInfo = live s' FileInfo \<and> live s FileObj = live s' FileObj"
  then show "live s r = live s' r" by (cases r) simp_all
qed simp

text \<open>The effect of each primitive on the count of resources.\<close>

lemma live_run: "run c s = (r, s') \<Longrightarrow> live s' = live s"
  by (auto simp: run_def split: prod.splits)

lemma live_GetRealPath:
  "GetRealPath path s = (p, s') \<Longrightarrow> live s' = (live s)(CString := live s CString + held p)"
  by (auto simp: GetRealPath_strdup strdup_def alloc_def split: prod.splits list.splits bool.splits)

lemma live_open_file:
  "open_file L fs p flags s = (h, s') \<Longrightarrow> live s' = (live s)(OpenFile := live s OpenFile + held h)"
  by (auto simp: open_file_def dest: live_run split: option.splits prod.splits)

lemma live_close_file:
  "close_file L fs h s = (r, s') \<Longrightarrow> live s' = (live s)(OpenFile := live s OpenFile - 1)"
  by (auto simp: close_file_def dest: live_run split: prod.splits)

lemma live_open_error: "open_error L fs p s = (r, s') \<Longrightarrow> live s' = live s"
  by (auto simp: open_error_def path_info_def free_info_def dest: live_run split: option.splits prod.splits)

lemma live_open_readbuf:
  assumes "open_readbuf f s = (f', s')"
  shows "live s' = (live s)(ReadBuf := live s ReadBuf + held (readbuf f') - held (readbuf f))"
    "fh f' = fh f" "m_fs f' = m_fs f" "f_fname f' = f_fname f" "m_state f' = m_state f"
  using assms
  by (auto simp: open_readbuf_def alloc_def split: option.splits prod.splits bool.splits list.splits)

text \<open>The steps of \<^verbatim>\<open>Open\<close> in sequence.\<close>

lemma Open_steps:
  assumes "fh f = None" and "GetRealPath path s = (p, s1)" and "open_readbuf (f\<lparr>f_fname := p\<rparr>) s1 = (f1, s2)"
    and "hadoop_connect L (Some client) s2 = (fs, s3)" and "open_file L fs p (open_flags mode) s3 = (h, s4)"
    and "open_error L fs p s4 = (e, s5)"
  shows "Open L D path mode cm client f s =
      (case fs of
         None \<Rightarrow> (Emsg_ret s3, f1\<lparr>m_fs := None,
                   f_error := Emsg_info L EIO ''Failed to connect to HDFS'' (Some [])\<rparr>, s3)
       | Some _ \<Rightarrow>
           (case h of
              None \<Rightarrow> (- e, f1\<lparr>m_fs := fs\<rparr>, s5)
            | Some _ \<Rightarrow>
                if open_flags mode AND O_WRONLY \<noteq> 0
                then (case p of
                        None \<Rightarrow> (XrdOssOK, f1\<lparr>m_fs := fs, fh := h\<rparr>, s4\<lparr>ub := True\<rparr>)
                      | Some q \<Rightarrow> if \<not> strncmp_eq cksums_prefix q 7
                          then (XrdOssOK, f1\<lparr>m_fs := fs, fh := h,
                                  m_state := Some (ChecksumState_new D (junk32 s4) ALL_DIGESTS)\<rparr>, acquire CksState s4)
                          else (XrdOssOK, f1\<lparr>m_fs := fs, fh := h\<rparr>, s4))
                else (XrdOssOK, f1\<lparr>m_fs := fs, fh := h\<rparr>, s4)))"
  using assms
  by (simp add: Open_def Connect_def hadoop_disconnect_def file_Emsg_def Let_def split: option.split)

lemma balanced_Open:
  assumes "balanced s0 (f, s)" "fh f \<noteq> None \<or> f_fname f = None" "Open L D path mode cm client f s = (r, f', s')"
  shows "balanced s0 (f', s')"
proof (cases "fh f")
  case None
  obtain p s1 where p: "GetRealPath path s = (p, s1)" by fastforce
  obtain f1 s2 where rb: "open_readbuf (f\<lparr>f_fname := p\<rparr>) s1 = (f1, s2)" by fastforce
  obtain fs s3 where c: "hadoop_connect L (Some client) s2 = (fs, s3)" by fastforce
  obtain h s4 where o: "open_file L fs p (open_flags mode) s3 = (h, s4)" by fastforce
  obtain e s5 where e: "open_error L fs p s4 = (e, s5)" by fastforce
  note live = live_GetRealPath [OF p] live_open_readbuf(1) [OF rb] hadoop_connect_frame(1) [OF c]
    live_open_file [OF o] live_open_error [OF e]
  note f1 = live_open_readbuf(2-) [OF rb]
  show ?thesis
    using assms(3) [unfolded Open_steps [OF None p rb c o e]] None assms(1,2) live f1
    by (auto simp: balanced_def split: option.splits if_splits)
next
  case (Some h)
  with assms show ?thesis by (simp add: Open_def)
qed

text \<open>The refill loop, and so \<^verbatim>\<open>Read\<close>, takes and gives nothing, whatever the library does.\<close>

lemma fill_readbuf_live:
  assumes "fill_readbuf L fs h offset bufsize buf len s = Some (ok, m, len', s')"
  shows "live s' = live s"
proof -
  have "live (snd (snd (snd (ok, m, len', s')))) = live s"
  proof (rule fill_readbuf.raw_induct [OF _ assms,
        where P = "\<lambda>L fs h offset bufsize buf len s y. live (snd (snd (snd y))) = live s"], goal_cases)
    case (1 fill L fs h offset bufsize buf len s y)
    obtain n bs s1 where run: "run (hdfsPread L fs h (offset + int len) (tSize (bufsize - len))) (s\<lparr>errno := 0\<rparr>)
        = ((n, bs), s1)" by (metis prod.exhaust)
    show ?case
      using 1(2) live_run [OF run] by (auto simp: run Let_def dest: 1(1) split: if_splits)
  qed
  then show ?thesis by simp
qed

lemma balanced_Read:
  assumes "balanced s0 (f, s)" "Read L offset blen f s = Some (n, bs, f', s')"
  shows "balanced s0 (f', s')"
proof -
  have bypass: "live (snd (snd (snd (read_bypass L offset blen f s)))) = live s"
    by (auto simp: read_bypass_def file_Emsg_def Let_def dest: live_run split: prod.splits)
  have "live s' = live s \<and> fh f' = fh f \<and> m_fs f' = m_fs f \<and> f_fname f' = f_fname f \<and>
      held (readbuf f') = held (readbuf f) \<and> m_state f' = m_state f"
  proof (cases "readbuf_size f < blen")
    case True
    with assms(2) bypass show ?thesis
      by (auto simp: Read_def read_bypass_def file_Emsg_def Let_def split: prod.splits if_splits)
  next
    case False
    obtain got f1 where part: "read_partial offset f = (got, f1)" by fastforce
    then have "fh f1 = fh f" "m_fs f1 = m_fs f" "f_fname f1 = f_fname f" "readbuf f1 = readbuf f" "m_state f1 = m_state f"
      by (auto simp: read_partial_def Let_def split: if_splits)
    with False part assms(2) show ?thesis
      by (auto simp: Read_def read_hit_def read_refill_def file_Emsg_def Let_def dest: fill_readbuf_live
          split: if_splits option.splits bind_splits)
  qed
  with assms(1) show ?thesis by (simp add: balanced_def)
qed

lemma balanced_Write:
  assumes "balanced s0 (f, s)" "Write L D buff offset f s = (r, f', s')"
  shows "balanced s0 (f', s')"
  using assms
  by (auto simp: Write_def file_Emsg_def Let_def balanced_def dest: live_run split: prod.splits if_splits)

lemma balanced_Fstat:
  assumes "balanced s0 (f, s)" "Fstat L buf f s = (r, f', s')"
  shows "balanced s0 (f', s')"
proof -
  obtain i s1 where run: "run (hdfsGetPathInfo L (m_fs f) (f_fname f)) s = (i, s1)" by fastforce
  show ?thesis
    using assms live_run [OF run]
    by (cases i) (auto simp: balanced_def Fstat_def file_Emsg_def path_info_def free_info_def put_stat_def run)
qed


section \<open>Examples\<close>

lemma mini_pread_contract:
  "pread_contract mini_lib fs h data (\<lambda>w. mini_data h w = Some data) (\<lambda>w. length (mini_sched w))"
  by (auto simp: pread_contract_def mini_pread_def mini_data_def segment_simps Let_def
      split: list.splits if_splits)

lemma mini_pread_reliable: "pread_reliable mini_lib fs h (\<lambda>w. mini_data h w = Some data)"
  by (auto simp: pread_reliable_def mini_pread_def Let_def split: list.splits if_splits)

text \<open>Alice opens a file for reading, and one for writing.\<close>

definition alice_read :: "bytes XrdHdfsFile \<times> mini sys" where
  "alice_read = snd (Open mini_lib example_digests ''/d/a'' O_RDONLY 0 alice XrdHdfsFile_new mini_sys)"

definition alice_write :: "bytes XrdHdfsFile \<times> mini sys" where
  "alice_write = snd (Open mini_lib example_digests ''/d/n'' O_WRONLY 0 alice XrdHdfsFile_new mini_sys)"

lemmas open_eval = Open_def Connect_def open_readbuf_def open_flags_def XrdHdfsFile_new_def alloc_def
  GetRealPath_ok real_path_def mini_hadoop_connect open_file_def run_def mini_openFile_def Let_def

lemma alice_read_open:
  "Open mini_lib example_digests ''/d/a'' O_RDONLY 0 alice XrdHdfsFile_new mini_sys =
     (XrdOssOK, fst alice_read, snd alice_read)"
  "mini_data (fh (fst alice_read)) (world (snd alice_read)) = Some ''hello world''"
  "readbuf_size (fst alice_read) = 32768"
  by (simp_all add: alice_read_def open_eval mini_world_def mini_data_def)

lemma alice_write_open:
  "Open mini_lib example_digests ''/d/n'' O_WRONLY 0 alice XrdHdfsFile_new mini_sys =
     (XrdOssOK, fst alice_write, snd alice_write)"
  "m_state (fst alice_write) = Some (ChecksumState_new example_digests 7 ALL_DIGESTS)"
  "m_nextoff (fst alice_write) = 0"
  "fh (fst alice_write) = Some 1" "map_of (mini_open (world (snd alice_write))) 1 = Some ''/d/n''"
  by (simp_all add: alice_write_def open_eval mini_world_def mini_put_def strncmp_eq_def cksums_prefix_def)

lemma alice_read_inv: "buf_inv data (fst alice_read)"
  by (rule Open_buf_inv [OF alice_read_open(1)]) (simp, simp add: XrdHdfsFile_new_def)

theorem Read_is_slice_witness:
  "\<exists>n bs f' s'. Read mini_lib 6 20 (fst alice_read) (snd alice_read) = Some (n, bs, f', s') \<and>
     (0 \<le> n \<longrightarrow> n \<le> 20 \<and> bs = segment ''hello world'' 6 (nat n))"
  using Read_is_slice [OF mini_pread_contract alice_read_inv alice_read_open(2), of 6 20] by fastforce

theorem reads_are_transparent_witness:
  "\<exists>f' s'. reads mini_lib [(0, 5), (6, 5), (3, 100)] (fst alice_read) (snd alice_read) =
     Some ([(5, ''hello''), (5, ''world''), (8, ''lo world'')], f', s')"
  using reads_are_transparent [OF alice_read_open(1) mini_pread_contract mini_pread_reliable alice_read_open(2),
      of "[(0, 5), (6, 5), (3, 100)]"]
  by (simp add: alice_read_open(3) segment_def)

theorem Open_outcome_witness:
  "fst (Open mini_lib example_digests ''/d/n'' O_RDONLY 0 alice XrdHdfsFile_new mini_sys) = - ENOENT"
proof -
  obtain r f' s' where o:
    "Open mini_lib example_digests ''/d/n'' O_RDONLY 0 alice XrdHdfsFile_new mini_sys = (r, f', s')"
    by (metis prod.exhaust)
  let ?new = "XrdHdfsFile_new :: bytes XrdHdfsFile"
  have "fh ?new = None" "m_state ?new = None" by (simp_all add: XrdHdfsFile_new_def)
  moreover obtain s1 where "hadoop_connect mini_lib (Some alice)
      (snd (open_readbuf ?new (acquire CString mini_sys))) = (Some 3, s1)" "world s1 = mini_world"
    by (simp add: open_readbuf_def XrdHdfsFile_new_def alloc_def mini_hadoop_connect)
  moreover have "real_path mini_sys ''/d/n'' = ''/d/n''" by (simp add: real_path_def)
  ultimately show ?thesis
    using Open_outcome [OF _ _ mini_sys_fields(2) _ _ _ o, of "Some 3" s1 None ENOENT mini_world None ENOENT mini_world] o
    by (simp add: open_flags_def mini_openFile_def mini_info_def mini_world_def Let_def)
qed

theorem Write_in_order_witness:
  "fst (Write mini_lib example_digests ''abc'' 5 (fst alice_write) (snd alice_write)) < 0"
proof -
  obtain r f' s' where w: "Write mini_lib example_digests ''abc'' 5 (fst alice_write) (snd alice_write) = (r, f', s')"
    by (metis prod.exhaust)
  from Write_in_order [OF w] show ?thesis using w alice_write_open(3) by simp
qed

theorem writes_checksum_file_witness:
  "\<exists>j st. m_state (fst (snd (writes mini_lib example_digests [''ab'', ''c''] (fst alice_write) (snd alice_write)))) = Some st \<and>
     represents example_digests j ALL_DIGESTS ''abc'' st"
proof -
  obtain rs f' s' where w:
    "writes mini_lib example_digests [''ab'', ''c''] (fst alice_write) (snd alice_write) = (rs, f', s')"
    by (metis prod.exhaust)
  have "rs = [2, 1]"
    using w alice_write_open(3-5)
    by (auto simp: Write_def run_def mini_write_def mini_put_def Let_def)
  with w have "writes mini_lib example_digests [''ab'', ''c''] (fst alice_write) (snd alice_write)
      = (map (\<lambda>b. int (length b)) [''ab'', ''c''], f', s')" by simp
  from writes_checksum_file [OF running_example _ alice_write_open(1) _ this] alice_write_open(2) w
  show ?thesis by fastforce
qed

theorem partial_write_desyncs_witness:
  "\<exists>st'. m_state (fst (snd (Write (mini_lib\<lparr>hdfsWrite := (\<lambda>fs h b l e w. (2, e, w))\<rparr>) example_digests ''abc'' 0
       (fst alice_write) (snd alice_write)))) = Some st' \<and>
     represents example_digests 7 ALL_DIGESTS ''abc'' st'"
proof -
  let ?L = "mini_lib\<lparr>hdfsWrite := (\<lambda>fs h b l e w. (2, e, w))\<rparr>"
  obtain r f' s' where w: "Write ?L example_digests ''abc'' 0 (fst alice_write) (snd alice_write) = (r, f', s')"
    by (metis prod.exhaust)
  then have "r = 2" using alice_write_open(3) by (auto simp: Write_def run_def Let_def)
  then show ?thesis
    using partial_write_desyncs [OF running_example alice_write_open(2) represents_new [OF running_example],
        of "''abc''" ?L "snd alice_write" r f' s'] w alice_write_open(3) by auto
qed

end
