(* ===== verification/Hdfs_ChecksumManager.thy ===== *)
theory Hdfs_ChecksumManager
  imports Hdfs_File
begin

text \<open>
  The class \<^verbatim>\<open>ChecksumManager\<close> (\<^verbatim>\<open>src/src/XrdHdfsChecksum.cc\<close>, \<^verbatim>\<open>src/src/XrdHdfsChecksumCalc.cc\<close>), which keeps
  the checksums of a file in a text file below \<^verbatim>\<open>/cksums\<close>, one line \<open>NAME:value\<close> each, and the \<^verbatim>\<open>Close\<close> of a
  file object, which calls it.  The two are mutually recursive: closing a written file records its
  checksums, which writes and closes a file.  The operations of the manager take the \<^verbatim>\<open>Close\<close> they call
  as the argument \<open>close\<close>; \<open>Close L D n\<close> is the source's \<^verbatim>\<open>Close\<close> with at most \<open>n\<close> nested calls, and \<^term>\<open>None\<close>
  when that is not enough.  Reading and writing loops that may retry for ever are
  \<^theory_text>\<open>partial_function\<close>s.  XRootD's \<^verbatim>\<open>XrdCksData\<close> is the parameter \<open>K\<close>.
\<close>

type_synonym ChecksumValues = "(string \<times> string) list"

type_synonym ('w, 'md) closer =
  "'md XrdHdfsFile \<Rightarrow> 'w sys \<Rightarrow> (int \<times> 'md XrdHdfsFile \<times> 'w sys) option"

record ChecksumManager =
  m_client :: oucEnv
  m_default_digest :: string

text \<open>The constructor copies the name of the superuser; the empty destructor does not free it.\<close>

definition ChecksumManager_new :: "'w sys \<Rightarrow> ChecksumManager \<times> 'w sys" where
  "ChecksumManager_new s =
     (case strdup ''root'' s of (n, s) \<Rightarrow>
        (\<lparr>m_client = \<lparr>secEnv = Some \<lparr>request_name = None, sec_name = n\<rparr>\<rparr>, m_default_digest = ''''\<rparr>, s))"

text \<open>\<^verbatim>\<open>XrdCksData\<close>: the name of a checksum and its binary value, with conversions from and to text.\<close>

record XrdCksData =
  cks_Name :: cstr
  cks_Value :: bytes
  cks_Length :: nat

record ckslib =
  NameSize :: nat
  ValuSize :: nat
  cks_Set :: "XrdCksData \<Rightarrow> string \<Rightarrow> nat \<Rightarrow> XrdCksData"
  cks_Get :: "XrdCksData \<Rightarrow> nat \<Rightarrow> string"
  cks_default :: XrdCksData


section \<open>The text of a checksum file\<close>

definition GetChecksumFilename :: "cstr \<Rightarrow> string" where
  "GetChecksumFilename pfn = (case pfn of None \<Rightarrow> '''' | Some p \<Rightarrow> ''/cksums/'' @ p)"

text \<open>
  \<^verbatim>\<open>Parse\<close>.  \<^verbatim>\<open>sscanf (ptr, "%s%n", ...)\<close> skips white space, takes the characters up to the next white
  space, and says how many characters it consumed; it gives nothing at the end of the text.
\<close>

definition scan_token :: "string \<Rightarrow> string \<times> string" where
  "scan_token ptr = (let rest = dropWhile isspace ptr
     in (takeWhile (\<lambda>c. \<not> isspace c) rest, dropWhile (\<lambda>c. \<not> isspace c) rest))"

lemma scan_token_length: "(buffer, rest) = scan_token ptr \<Longrightarrow> length rest \<le> length ptr"
  by (auto simp: scan_token_def Let_def) (meson length_dropWhile_le order_trans)

function parse_loop :: "string \<Rightarrow> ChecksumValues \<Rightarrow> int \<times> ChecksumValues" where
  "parse_loop ptr result =
     (case scan_token ptr of (buffer, rest) \<Rightarrow>
        if buffer = [] then (0, result)
        else if length buffer < 2 then (- EIO, result)
        else if CHR '':'' \<notin> set buffer then (- EIO, result)
        else
          let name = takeWhile (\<lambda>c. c \<noteq> CHR '':'') buffer;
              val = drop (Suc (length name)) buffer
          in if val = [] then (- EIO, result)
             else let result' = result @ [(name, val)]
                  in case rest of
                       [] \<Rightarrow> (0, result')
                     | c # cs \<Rightarrow>
                         if c \<noteq> newline then (- EIO, result')
                         else if cs = [] then (0, result')
                         else parse_loop cs result')"
  by pat_completeness auto
termination
  by (relation "measure (\<lambda>(ptr, result). length ptr)") (auto dest!: scan_token_length)

declare parse_loop.simps [simp del]

definition Parse :: "string \<Rightarrow> int \<times> ChecksumValues" where
  "Parse checksum_contents = parse_loop (c_str checksum_contents) []"

text \<open>The text \<^verbatim>\<open>SetMultiple\<close> writes.\<close>

definition render_values :: "ChecksumValues \<Rightarrow> string" where
  "render_values vals = concat (map (\<lambda>(n, v). map toupper n @ '':'' @ v @ [newline]) vals)"


section \<open>Files the manager opens\<close>

definition newFile :: "'w sys \<Rightarrow> 'md XrdHdfsFile \<times> 'w sys" where
  "newFile s = (XrdHdfsFile_new, acquire FileObj s)"

definition delete_file :: "'w lib \<Rightarrow> 'md XrdHdfsFile \<Rightarrow> 'w sys \<Rightarrow> 'w sys" where
  "delete_file L f s = release FileObj (XrdHdfsFile_delete L f s)"

text \<open>
  The double loop with which \<^verbatim>\<open>GetFileContents\<close> and \<^verbatim>\<open>Calc\<close> read a file: the inner one repeats an
  interrupted call, the outer one goes on until a call returns zero or fails.  \<open>upd\<close> is what is out
  with the bytes of each call.
\<close>

partial_function (option) read_loop ::
  "'w lib \<Rightarrow> nat \<Rightarrow> ('a \<Rightarrow> bytes \<Rightarrow> 'a) \<Rightarrow> int \<Rightarrow> 'a \<Rightarrow> 'md XrdHdfsFile \<Rightarrow> 'w sys
     \<Rightarrow> (int \<times> 'a \<times> 'md XrdHdfsFile \<times> 'w sys) option" where
  "read_loop L blen upd offset acc f s =
     Option.bind (Read L offset blen f s) (\<lambda>(retval, bs, f, s).
       if retval = - EINTR then read_loop L blen upd offset acc f s
       else if 0 < retval
       then read_loop L blen upd (offset + retval) (upd acc (take (nat retval) bs)) f s
       else Some (retval, acc, f, s))"

text \<open>Each block read is appended up to its first null.\<close>

definition GetFileContents ::
  "'w lib \<Rightarrow> 'md cklib \<Rightarrow> ('w, 'md) closer \<Rightarrow> ChecksumManager \<Rightarrow> cstr \<Rightarrow> 'w sys
     \<Rightarrow> (int \<times> string \<times> 'w sys) option" where
  "GetFileContents L D close mgr pfn s =
     (if \<not> g_hdfs_oss s then Some (- ENOMEM, [], s)
      else case newFile s of (f, s) \<Rightarrow>
        (case Open L D (GetChecksumFilename pfn) O_RDONLY 0 (m_client mgr) f s of (rc, f, s) \<Rightarrow>
           if rc \<noteq> 0 then Some (rc, [], s)
           else
             Option.bind (read_loop L 4095 (\<lambda>ss bs. ss @ c_str bs) 0 [] f s) (\<lambda>(retval, ss, f, s).
               Option.bind (close f s) (\<lambda>(_, f, s).
                 let s = delete_file L f s
                 in Some (if retval < 0 then (retval, [], s) else (0, ss, s))))))"

text \<open>The double loop of \<^verbatim>\<open>SetMultiple\<close>.\<close>

partial_function (option) write_loop ::
  "'w lib \<Rightarrow> 'md cklib \<Rightarrow> string \<Rightarrow> int \<Rightarrow> 'md XrdHdfsFile \<Rightarrow> 'w sys
     \<Rightarrow> (int \<times> 'md XrdHdfsFile \<times> 'w sys) option" where
  "write_loop L D result offset f s =
     (case Write L D (drop (nat offset) result) offset f s of (retval, f, s) \<Rightarrow>
        if retval = - EINTR then write_loop L D result offset f s
        else if 0 < retval \<and> offset + retval < int (length result)
        then write_loop L D result (offset + retval) f s
        else Some (retval, f, s))"

definition SetMultiple ::
  "'w lib \<Rightarrow> 'md cklib \<Rightarrow> ('w, 'md) closer \<Rightarrow> ChecksumManager \<Rightarrow> cstr \<Rightarrow> ChecksumValues \<Rightarrow> 'w sys
     \<Rightarrow> (int \<times> 'w sys) option" where
  "SetMultiple L D close mgr pfn vals s =
     (if \<not> g_hdfs_oss s then Some (0, s\<lparr>ub := True\<rparr>)
      else case newFile s of (f, s) \<Rightarrow>
        (case Open L D (GetChecksumFilename pfn) O_WRONLY 0 (m_client mgr) f s of (rc, f, s) \<Rightarrow>
           if rc \<noteq> 0 then Some (rc, s)
           else
             Option.bind (write_loop L D (render_values vals) 0 f s) (\<lambda>(retval, f, s).
               Option.bind (close f s) (\<lambda>(_, f, s).
                 Some (if retval < 0 then retval else 0, delete_file L f s)))))"

definition state_values :: "'md ChecksumState \<Rightarrow> ChecksumValues" where
  "state_values state = filter (\<lambda>(n, v). v \<noteq> [])
     [(''CKSUM'', Get_digest state CKSUM), (''ADLER32'', Get_digest state ADLER32),
      (''CRC32'', Get_digest state CRC32), (''MD5'', Get_digest state MD5),
      (''CVMFS'', Get_digest state CVMFS)]"

definition Set_state ::
  "'w lib \<Rightarrow> 'md cklib \<Rightarrow> ('w, 'md) closer \<Rightarrow> ChecksumManager \<Rightarrow> cstr \<Rightarrow> 'md ChecksumState \<Rightarrow> 'w sys
     \<Rightarrow> (int \<times> 'w sys) option" where
  "Set_state L D close mgr pfn state s = SetMultiple L D close mgr pfn (state_values state) s"

text \<open>\<^verbatim>\<open>XrdHdfsFile::Close\<close>, with a bound on the nesting.\<close>

fun Close :: "'w lib \<Rightarrow> 'md cklib \<Rightarrow> nat \<Rightarrow> ('w, 'md) closer" where
  "Close L D 0 f s = None"
| "Close L D (Suc n) f s =
     close_with L D (\<lambda>fname state s.
       case ChecksumManager_new s of (mgr, s) \<Rightarrow> Set_state L D (Close L D n) mgr fname state s) f s"

section \<open>The interface of the manager\<close>

text \<open>\<^verbatim>\<open>XrdCksInit\<close> and \<^verbatim>\<open>Init\<close>.\<close>

definition Init_manager :: "cstr \<Rightarrow> ChecksumManager \<Rightarrow> int \<times> ChecksumManager" where
  "Init_manager default_checksum mgr =
     (1, case default_checksum of None \<Rightarrow> mgr | Some d \<Rightarrow> mgr\<lparr>m_default_digest := d\<rparr>)"

definition XrdCksInit :: "'w sys \<Rightarrow> ChecksumManager \<times> 'w sys" where
  "XrdCksInit s = (case ChecksumManager_new s of (mgr, s) \<Rightarrow> (snd (Init_manager None mgr), s))"

definition Config_manager :: "string \<Rightarrow> string \<Rightarrow> int" where
  "Config_manager token line = 1"

definition Object :: "string \<Rightarrow> unit option" where
  "Object name = None"

text \<open>\<^verbatim>\<open>Del\<close> unlinks the path it is given, without a client.\<close>

definition Del :: "'w lib \<Rightarrow> string \<Rightarrow> 'w sys \<Rightarrow> int \<times> 'w sys" where
  "Del L pfn s = (if g_hdfs_oss s then Unlink L pfn None s else (0, s\<lparr>ub := True\<rparr>))"

text \<open>The last entry whose name matches, case aside.\<close>

definition find_value :: "ChecksumValues \<Rightarrow> string \<Rightarrow> string" where
  "find_value vals requested =
     foldl (\<lambda>found (n, v). if strcasecmp_eq n requested then v else found) [] vals"

definition requested_checksum :: "ChecksumManager \<Rightarrow> XrdCksData \<Rightarrow> string" where
  "requested_checksum mgr cks =
     (let r = (case cks_Name cks of Some n \<Rightarrow> n | None \<Rightarrow> m_default_digest mgr)
      in if r = [] then ''adler32'' else r)"

definition Get ::
  "'w lib \<Rightarrow> 'md cklib \<Rightarrow> ckslib \<Rightarrow> ('w, 'md) closer \<Rightarrow> ChecksumManager \<Rightarrow> string \<Rightarrow> XrdCksData \<Rightarrow> 'w sys
     \<Rightarrow> (int \<times> XrdCksData \<times> 'w sys) option" where
  "Get L D K close mgr pfn cks s =
     Option.bind (GetFileContents L D close mgr (Some pfn) s) (\<lambda>(rc, contents, s).
       if rc \<noteq> 0 then Some (if rc = - ENOENT then - ESRCH else rc, cks, s)
       else case Parse contents of (rc, vals) \<Rightarrow>
         if rc \<noteq> 0 then Some (- ESRCH, cks, s)
         else let checksum_value = find_value vals (requested_checksum mgr cks)
              in if checksum_value = [] then Some (- ESRCH, cks, snd (Del L pfn s))
                 else if ValuSize K < length checksum_value then Some (- EDOM, cks, s)
                 else Some (0, cks_Set K cks checksum_value (length checksum_value), s))"

text \<open>\<^verbatim>\<open>List\<close>: the bytes stored in the caller's buffer, without a terminating null; \<^term>\<open>None\<close> for a null result.\<close>

fun join_with :: "char \<Rightarrow> string list \<Rightarrow> string" where
  "join_with c [] = []"
| "join_with c [x] = x"
| "join_with c (x # y # xs) = x @ c # join_with c (y # xs)"

definition List_checksums ::
  "'w lib \<Rightarrow> 'md cklib \<Rightarrow> ('w, 'md) closer \<Rightarrow> ChecksumManager \<Rightarrow> string \<Rightarrow> int \<Rightarrow> char \<Rightarrow> 'w sys
     \<Rightarrow> (bytes option \<times> 'w sys) option" where
  "List_checksums L D close mgr pfn blen separator s =
     Option.bind (GetFileContents L D close mgr (Some pfn) s) (\<lambda>(rc, contents, s).
       if rc \<noteq> 0 then Some (None, s)
       else case Parse contents of (rc, vals) \<Rightarrow>
         if rc \<noteq> 0 then Some (None, s)
         else let result = join_with separator (map fst vals);
                  ublen = nat (blen mod 2 ^ 32)
              in Some (Some (take (if ublen < length result then ublen else length result) result), s))"

definition Name :: "int \<Rightarrow> cstr" where
  "Name seq_num = (if seq_num = 0 then Some ''md5'' else if seq_num = 1 then Some ''adler32''
     else if seq_num = 2 then Some ''cksum'' else None)"

text \<open>\<^verbatim>\<open>Size\<close> compares its argument at once: \<^term>\<open>None\<close> is the null pointer that its default argument would be, dereferenced.\<close>

definition Size :: "cstr \<Rightarrow> int option" where
  "Size name = map_option (\<lambda>name.
     if strcasecmp_eq name ''md5'' then 16 else if strcasecmp_eq name ''adler32'' then 5
     else if strcasecmp_eq name ''cksum'' then 5 else - 1) name"

text \<open>
  \<^verbatim>\<open>Set (pfn, cks)\<close>: the loop over the entries, with the flags \<^verbatim>\<open>overwrote_value\<close> and \<^verbatim>\<open>changed_value\<close>.
\<close>

definition set_loop :: "string \<Rightarrow> string \<Rightarrow> ChecksumValues \<Rightarrow> ChecksumValues \<times> bool \<times> bool" where
  "set_loop name val vals =
     foldl (\<lambda>(out, overwrote, changed) (n, v).
         if map toupper n = name
         then if v = val then (out @ [(n, v)], True, False) else (out @ [(n, val)], True, changed)
         else (out @ [(n, v)], overwrote, changed))
       ([], False, True) vals"

definition set_values :: "string \<Rightarrow> string \<Rightarrow> ChecksumValues \<Rightarrow> ChecksumValues \<times> bool" where
  "set_values name val vals =
     (case set_loop name val vals of (vals, overwrote, changed) \<Rightarrow>
        (if overwrote then vals else vals @ [(name, val)], changed))"

definition Set_cks ::
  "'w lib \<Rightarrow> 'md cklib \<Rightarrow> ckslib \<Rightarrow> ('w, 'md) closer \<Rightarrow> ChecksumManager \<Rightarrow> string \<Rightarrow> XrdCksData \<Rightarrow> 'w sys
     \<Rightarrow> (int \<times> 'w sys) option" where
  "Set_cks L D K close mgr pfn cks s =
     Option.bind (GetFileContents L D close mgr (Some pfn) s) (\<lambda>(rc, contents, s).
       if rc \<noteq> 0 then Some (rc, s)
       else case Parse contents of (rc, vals) \<Rightarrow>
         if rc \<noteq> 0 then Some (rc, s)
         else (case cks_Name cks of
           None \<Rightarrow> Some (0, s\<lparr>ub := True\<rparr>)
         | Some n \<Rightarrow>
             (case set_values (map toupper n) (cks_Get K cks (cks_Length cks * 2 + 1)) vals of
                (vals, changed) \<Rightarrow>
                  if \<not> changed then Some (0, s) else SetMultiple L D close mgr (Some pfn) vals s)))"

text \<open>\<^verbatim>\<open>Calc\<close>.  A request for an unknown digest is refused before anything is opened.\<close>

definition calc_digest :: "ckslib \<Rightarrow> string \<Rightarrow> 32 word option" where
  "calc_digest K name =
     (if strncasecmp_eq name ''md5'' (NameSize K) then Some MD5
      else if strncasecmp_eq name ''cksum'' (NameSize K) then Some CKSUM
      else if strncasecmp_eq name ''crc32'' (NameSize K) then Some CRC32
      else if strncasecmp_eq name ''adler32'' (NameSize K) then Some ADLER32
      else None)"

definition Calc ::
  "'w lib \<Rightarrow> 'md cklib \<Rightarrow> ckslib \<Rightarrow> ('w, 'md) closer \<Rightarrow> ChecksumManager \<Rightarrow> string \<Rightarrow> XrdCksData \<Rightarrow> int \<Rightarrow> 'w sys
     \<Rightarrow> (int \<times> XrdCksData \<times> 'w sys) option" where
  "Calc L D K close mgr pfn cks do_set s =
     (case cks_Name cks of None \<Rightarrow> Some (0, cks, s\<lparr>ub := True\<rparr>) | Some name \<Rightarrow>
      case calc_digest K name of None \<Rightarrow> Some (- ENOTSUP, cks, s) | Some return_digest \<Rightarrow>
      let digests = (if do_set \<noteq> 0 then ALL_DIGESTS else 0) OR return_digest
      in if \<not> g_hdfs_oss s then Some (- ENOMEM, cks, s)
         else case newFile s of (f, s) \<Rightarrow>
           (case Open L D pfn O_RDONLY 0 (m_client mgr) f s of (rc, f, s) \<Rightarrow>
              if rc \<noteq> 0 then Some (rc, cks, s)
              else
                Option.bind (read_loop L (256 * 1024) (Update D) 0 (ChecksumState_new D (junk32 s) digests) f s)
                  (\<lambda>(retval, state, f, s).
                     Option.bind (close f s) (\<lambda>(_, f, s).
                       let s = delete_file L f s
                       in if retval < 0 then Some (- EIO, cks, s)
                          else let state = Finalize D state
                               in Option.bind (Set_state L D close mgr (Some pfn) state s) (\<lambda>(_, s).
                                    let val = Get_digest state return_digest
                                    in if val = [] then Some (- EIO, cks, s)
                                       else Some (0, cks_Set K cks val (length val), s))))))"

definition Ver ::
  "'w lib \<Rightarrow> 'md cklib \<Rightarrow> ckslib \<Rightarrow> ('w, 'md) closer \<Rightarrow> ChecksumManager \<Rightarrow> string \<Rightarrow> XrdCksData \<Rightarrow> 'w sys
     \<Rightarrow> (int \<times> 'w sys) option" where
  "Ver L D K close mgr pfn cks s =
     Option.bind (Get L D K close mgr pfn (cks_default K) s) (\<lambda>(rc, on_disk, s).
       Option.bind (if rc \<noteq> 0 then Calc L D K close mgr pfn on_disk 1 s else Some (0, on_disk, s))
         (\<lambda>(rc, on_disk, s).
            if rc \<noteq> 0 then Some (rc, s)
            else Some (if take (cks_Length cks) (cks_Value on_disk) = take (cks_Length cks) (cks_Value cks)
                       then 0 else 1, s)))"

section \<open>The text format\<close>

text \<open>
  An entry that survives being written and read: a value, no white space, no null and no colon in the
  name.
\<close>

definition entry_ok :: "string \<times> string \<Rightarrow> bool" where
  "entry_ok = (\<lambda>(n, v). v \<noteq> [] \<and> list_all plain_char n \<and> list_all (\<lambda>c. c \<noteq> NUL \<and> \<not> isspace c) v)"

definition upper_name :: "string \<times> string \<Rightarrow> string \<times> string" where
  "upper_name = (\<lambda>(n, v). (map toupper n, v))"

lemma plain_toupper [simp]: "plain_char (toupper c) = plain_char c"
proof -
  have "(toupper c = NUL) = (c = NUL)" "(toupper c = CHR '':'') = (c = CHR '':'')"
    by (auto simp: toupper_def Let_def char_of_neq_iff)
  then show ?thesis by (simp add: plain_char_def)
qed

lemma plain_charD: "plain_char c \<Longrightarrow> c \<noteq> NUL \<and> c \<noteq> CHR '':'' \<and> \<not> isspace c"
  by (simp add: plain_char_def)

lemma entry_okD:
  assumes "entry_ok (n, v)"
  shows "v \<noteq> []" "c \<in> set n \<Longrightarrow> plain_char c" "c \<in> set v \<Longrightarrow> c \<noteq> NUL \<and> \<not> isspace c"
    "c \<in> set (map toupper n) \<Longrightarrow> plain_char c"
proof -
  have ok: "v \<noteq> []" "\<forall>c \<in> set n. plain_char c" "\<forall>c \<in> set v. c \<noteq> NUL \<and> \<not> isspace c"
    using assms unfolding entry_ok_def prod.case list_all_iff by blast+
  then show "v \<noteq> []" "c \<in> set n \<Longrightarrow> plain_char c" "c \<in> set v \<Longrightarrow> c \<noteq> NUL \<and> \<not> isspace c" by blast+
  assume "c \<in> set (map toupper n)"
  then obtain d where "c = toupper d" "d \<in> set n" by (metis imageE list.set_map)
  with ok(2) show "plain_char c" by simp
qed

lemma isspace_newline [simp]: "isspace newline"
  by (simp add: isspace_def)

lemma not_isspace_colon [simp]: "\<not> isspace (CHR '':'')"
  by (simp add: isspace_def)

lemma scan_token_line:
  assumes "tok \<noteq> []" "\<forall>c \<in> set tok. \<not> isspace c"
  shows "scan_token (tok @ newline # cs) = (tok, newline # cs)"
proof -
  have "dropWhile isspace (tok @ newline # cs) = tok @ newline # cs"
    using assms by (cases tok) auto
  then show ?thesis
    using assms(2) by (auto simp: scan_token_def Let_def takeWhile_append dropWhile_append)
qed

lemma render_Cons: "render_values ((n, v) # vals) = (map toupper n @ CHR '':'' # v) @ newline # render_values vals"
  by (simp add: render_values_def)

lemma render_Nil_iff: "render_values vals = [] \<longleftrightarrow> vals = []"
  by (cases vals) (auto simp: render_values_def)

lemma parse_entry:
  assumes "entry_ok (n, v)"
  shows "parse_loop ((map toupper n @ CHR '':'' # v) @ newline # cs) result =
    (if cs = [] then (0, result @ [(map toupper n, v)])
     else parse_loop cs (result @ [(map toupper n, v)]))"
proof -
  let ?tok = "map toupper n @ CHR '':'' # v"
  have sp: "\<forall>c \<in> set ?tok. \<not> isspace c"
  proof
    fix c assume "c \<in> set ?tok"
    then consider "c \<in> set (map toupper n)" | "c = CHR '':''" | "c \<in> set v" by auto
    then show "\<not> isspace c" using entry_okD(3,4) [OF assms, of c] plain_charD [of c] by cases simp_all
  qed
  have v: "v \<noteq> []" by (rule entry_okD(1) [OF assms])
  have name: "takeWhile (\<lambda>c. c \<noteq> CHR '':'') ?tok = map toupper n"
  proof -
    have "c \<noteq> CHR '':''" if "c \<in> set (map toupper n)" for c
      using entry_okD(4) [OF assms that] plain_charD by blast
    then show ?thesis by (subst takeWhile_append2) simp_all
  qed
  have "scan_token (?tok @ newline # cs) = (?tok, newline # cs)" by (rule scan_token_line [OF _ sp]) simp
  then show ?thesis
    using v by (subst parse_loop.simps) (simp add: name Let_def del: map_map)
qed

lemma parse_render:
  assumes "\<forall>e \<in> set vals. entry_ok e"
  shows "parse_loop (render_values vals) result = (0, result @ map upper_name vals)"
  using assms
proof (induction vals arbitrary: result)
  case Nil
  show ?case by (subst parse_loop.simps) (simp add: render_values_def scan_token_def)
next
  case (Cons e vals)
  obtain n v where e: "e = (n, v)" by fastforce
  have ok: "entry_ok (n, v)" using Cons.prems e by simp
  show ?case
    using Cons.IH [of "result @ [(map toupper n, v)]"] Cons.prems
    unfolding e render_Cons parse_entry [OF ok] render_Nil_iff
    by (cases vals) (simp_all add: upper_name_def)
qed

lemma nul_free_render:
  assumes "\<forall>e \<in> set vals. entry_ok e"
  shows "nul_free (render_values vals)"
  using assms
proof (induction vals)
  case (Cons e vals)
  obtain n v where e: "e = (n, v)" by fastforce
  have ok: "entry_ok (n, v)" using Cons.prems e by simp
  have "nul_free (map toupper n)" "nul_free v"
    unfolding nul_free_def using entry_okD(3,4) [OF ok] plain_charD by blast+
  with Cons show ?case by (simp add: e render_Cons)
qed (simp add: render_values_def)

text \<open>
  C10. The checksum file is read back as it was written: for entries without white space and nulls, with
  a value each and no colon in a name, \<^verbatim>\<open>Parse\<close> accepts the text \<^verbatim>\<open>SetMultiple\<close> writes and gives the same
  entries in the same order, with the names in upper case.
\<close>

theorem Parse_render_roundtrip:
  assumes "\<forall>e \<in> set vals. entry_ok e"
  shows "Parse (render_values vals) = (0, map upper_name vals)"
  using assms by (simp add: Parse_def c_str_nul_free nul_free_render parse_render)

theorem Parse_render_roundtrip_witness:
  "Parse (render_values [(''md5'', ''00ff''), (''CKSUM'', ''42'')]) = (0, [(''MD5'', ''00ff''), (''CKSUM'', ''42'')])"
  using Parse_render_roundtrip [of "[(''md5'', ''00ff''), (''CKSUM'', ''42'')]"]
  by (simp add: entry_ok_def upper_name_def plain_char_def isspace_def toupper_def char_of_neq_iff)

lemma toupper_of_tolower [simp]: "toupper (tolower c) = toupper c"
  by (auto simp: tolower_def toupper_def Let_def)

lemma strcasecmp_upper: "strcasecmp_eq a b \<longleftrightarrow> map toupper a = map toupper b"
proof
  assume "strcasecmp_eq a b"
  then have "map toupper (map tolower a) = map toupper (map tolower b)" by (simp add: strcasecmp_eq_def)
  then show "map toupper a = map toupper b" by (simp add: comp_def)
next
  assume "map toupper a = map toupper b"
  then have "map tolower (map toupper a) = map tolower (map toupper b)" by simp
  then show "strcasecmp_eq a b" by (simp add: strcasecmp_eq_def comp_def)
qed

definition find_from :: "string \<Rightarrow> ChecksumValues \<Rightarrow> string \<Rightarrow> string" where
  "find_from found vals requested =
     foldl (\<lambda>found (n, v). if strcasecmp_eq n requested then v else found) found vals"

lemma find_from_simps [simp]:
  "find_from found [] r = found"
  "find_from found ((n, v) # vals) r = find_from (if map toupper n = map toupper r then v else found) vals r"
  "find_from found (xs @ ys) r = find_from (find_from found xs r) ys r"
  by (simp_all add: find_from_def strcasecmp_upper)

lemma find_value_from: "find_value vals r = find_from [] vals r"
  by (simp add: find_value_def find_from_def)

definition set_entry :: "string \<Rightarrow> string \<Rightarrow> string \<times> string \<Rightarrow> string \<times> string" where
  "set_entry name val = (\<lambda>(n, v). (n, if map toupper n = name then val else v))"

lemma set_loop_eq:
  "set_loop name val vals = (map (set_entry name val) vals,
     (\<exists>(n, v) \<in> set vals. map toupper n = name), \<not> (\<exists>(n, v) \<in> set vals. map toupper n = name \<and> v = val))"
proof -
  have "foldl (\<lambda>(out, overwrote, changed) (n, v).
         if map toupper n = name
         then if v = val then (out @ [(n, v)], True, False) else (out @ [(n, val)], True, changed)
         else (out @ [(n, v)], overwrote, changed)) (out, ov, ch) vals =
      (out @ map (set_entry name val) vals, ov \<or> (\<exists>(n, v) \<in> set vals. map toupper n = name),
       ch \<and> \<not> (\<exists>(n, v) \<in> set vals. map toupper n = name \<and> v = val))" for out ov ch
    by (induction vals arbitrary: out ov ch) (auto simp: set_entry_def split: prod.splits)
  then show ?thesis by (simp add: set_loop_def)
qed

lemma find_from_set_entry:
  "find_from found (map (set_entry name val) vals) r =
     (if map toupper r = name then if \<exists>(n, v) \<in> set vals. map toupper n = name then val else found
      else find_from found vals r)"
  by (induction vals arbitrary: found) (auto simp: set_entry_def)

lemma find_from_distinct:
  assumes "(n, val) \<in> set vals" "map toupper n = map toupper r" "distinct (map (map toupper \<circ> fst) vals)"
  shows "find_from found vals r = val"
proof -
  from split_list [OF assms(1)] obtain xs ys where vals: "vals = xs @ (n, val) # ys" by blast
  have "find_from val zs r = val" if "\<forall>e \<in> set zs. map toupper (fst e) \<noteq> map toupper r" for zs
    using that by (induction zs) auto
  moreover have "\<forall>e \<in> set ys. map toupper (fst e) \<noteq> map toupper r"
  proof -
    have "map toupper n \<notin> (map toupper \<circ> fst) ` set ys" using assms(3) by (simp add: vals)
    with assms(2) show ?thesis by (metis comp_apply imageI)
  qed
  ultimately show ?thesis using assms(2) by (simp add: vals)
qed

text \<open>
  C16. Setting one checksum of a file changes that one and no other: in the entries \<^verbatim>\<open>Set\<close> writes, a
  lookup of the name, in any case, gives the new value, and every other name what it gave before.
  The rewrite is skipped only when it would change nothing, for a file with one entry per name.
\<close>

theorem set_values_updates:
  "find_value (fst (set_values (map toupper n) val vals)) r =
     (if strcasecmp_eq r n then val else find_value vals r) \<and>
   (\<not> snd (set_values (map toupper n) val vals) \<and> distinct (map (map toupper \<circ> fst) vals) \<longrightarrow>
     find_value vals n = val)"
proof (intro conjI impI)
  show "find_value (fst (set_values (map toupper n) val vals)) r =
     (if strcasecmp_eq r n then val else find_value vals r)"
    by (auto simp: set_values_def set_loop_eq find_value_from find_from_set_entry strcasecmp_upper comp_def)
next
  assume "\<not> snd (set_values (map toupper n) val vals) \<and> distinct (map (map toupper \<circ> fst) vals)"
  then obtain m where "(m, val) \<in> set vals" "map toupper m = map toupper n"
    "distinct (map (map toupper \<circ> fst) vals)"
    by (auto simp: set_values_def set_loop_eq)
  then show "find_value vals n = val" unfolding find_value_from by (rule find_from_distinct)
qed

theorem set_values_updates_witness:
  "find_value [(''MD5'', ''1''), (''CKSUM'', ''2'')] ''MD5'' = ''1'' \<and>
   find_value (fst (set_values ''MD5'' ''3'' [(''MD5'', ''1''), (''CKSUM'', ''2'')])) ''CKSUM'' = ''2''"
proof -
  have u: "map toupper ''MD5'' = ''MD5''" "map toupper ''CKSUM'' = ''CKSUM''" by (simp_all add: toupper_def)
  have s: "strcasecmp_eq ''CKSUM'' ''MD5'' = False" by (simp add: strcasecmp_upper u del: list.map)
  show ?thesis
    using set_values_updates [of "''MD5''" "''1''" "[(''MD5'', ''1''), (''CKSUM'', ''2'')]" "''MD5''"]
      set_values_updates [of "''MD5''" "''3''" "[(''MD5'', ''1''), (''CKSUM'', ''2'')]" "''CKSUM''"] u
    by (simp add: s set_values_def set_loop_eq set_entry_def find_value_from)
qed

section \<open>What is recorded for a file\<close>

definition text_ok :: "string \<Rightarrow> bool" where
  "text_ok v \<longleftrightarrow> list_all (\<lambda>c. c \<noteq> NUL \<and> \<not> isspace c) v"

lemma text_ok_simps [simp]:
  "text_ok []" "text_ok (c # cs) \<longleftrightarrow> (c \<noteq> NUL \<and> \<not> isspace c) \<and> text_ok cs"
  "text_ok (xs @ ys) \<longleftrightarrow> text_ok xs \<and> text_ok ys"
  by (simp_all add: text_ok_def)

lemma plain_text_ok: "list_all plain_char v \<Longrightarrow> text_ok v"
  unfolding text_ok_def list_all_iff by (metis plain_charD)

lemma text_ok_concat: "\<forall>x \<in> set xs. text_ok (g x) \<Longrightarrow> text_ok (concat (map g xs))"
  by (induction xs) auto

lemma text_ok_show_nat [simp]: "text_ok (show_nat n)"
  by (rule plain_text_ok [OF show_nat_plain])

lemma text_ok_hex [simp]: "text_ok (human_readable_evp bs n)" "text_ok (concat (map hex_byte bs))"
  by (simp_all add: human_readable_evp_def plain_text_ok hex_plain)

lemma not_isspace_literals [simp]:
  "\<not> isspace (CHR '';'')" "\<not> isspace (CHR ''='')" "\<not> isspace (CHR '','')" "\<not> isspace (CHR ''_'')"
  "\<not> isspace (CHR ''0'')" "\<not> isspace (CHR ''s'')" "\<not> isspace (CHR ''i'')" "\<not> isspace (CHR ''z'')"
  "\<not> isspace (CHR ''e'')" "\<not> isspace (CHR ''c'')" "\<not> isspace (CHR ''h'')" "\<not> isspace (CHR ''k'')"
  "\<not> isspace (CHR ''u'')" "\<not> isspace (CHR ''m'')" "\<not> isspace (CHR ''n'')" "\<not> isspace (CHR ''o'')"
  "\<not> isspace (CHR ''f'')" "\<not> isspace (CHR ''t'')"
  by (simp_all add: isspace_def)

lemma text_ok_graft:
  assumes "text_ok sha1" "\<forall>c \<in> set chunks. text_ok (c_sha1 c)"
  shows "text_ok (graft_text n sha1 chunks)"
proof -
  have "\<forall>c \<in> set (tl chunks). text_ok (c_sha1 c)" using assms(2) by (cases chunks) auto
  moreover have "\<not> length chunks < 2 \<longrightarrow> text_ok (c_sha1 (hd chunks))" using assms(2) by (cases chunks) auto
  ultimately show ?thesis
    using assms(1) by (auto simp: graft_text_def intro!: text_ok_concat)
qed

lemma Get_digest_text_ok:
  assumes "running_digests D" and "\<forall>b \<in> set buffers. length b < 2 ^ 32"
    and "d \<in> {CKSUM, ADLER32, CRC32, MD5, CVMFS}"
  shows "text_ok (Get_digest (digest_file D j ds buffers) d)"
proof (cases "d = CVMFS \<and> has ds CVMFS")
  case True
  have "\<forall>c \<in> set (full_chunks D (concat buffers)). text_ok (c_sha1 c)"
    by (auto simp: full_chunks_def sha1_hex_def)
  then have "text_ok (graft_text n (sha1_hex D (concat buffers)) (full_chunks D (concat buffers)))" for n
    by (rule text_ok_graft [rotated]) (simp add: sha1_hex_def)
  with True digest_file_values(5) [OF assms(1,2)] show ?thesis by auto
next
  case False
  have "m_digests (digest_file D j ds buffers) = ds"
    using digest_file_represents [OF assms(1,2)] by (simp add: digest_file_def Finalize_members represents_def)
  moreover have "\<not> has CKSUM CVMFS" "\<not> has ADLER32 CVMFS" "\<not> has CRC32 CVMFS" "\<not> has MD5 CVMFS"
    by (simp_all add: has_def)
  ultimately show ?thesis using False assms(3) by (auto simp: Get_digest_def)
qed

lemma upper_digest_names [simp]:
  "map toupper ''CKSUM'' = ''CKSUM''" "map toupper ''ADLER32'' = ''ADLER32''" "map toupper ''CRC32'' = ''CRC32''"
  "map toupper ''MD5'' = ''MD5''" "map toupper ''CVMFS'' = ''CVMFS''"
  "map toupper ''cksum'' = ''CKSUM''" "map toupper ''adler32'' = ''ADLER32''" "map toupper ''crc32'' = ''CRC32''"
  "map toupper ''md5'' = ''MD5''" "map toupper ''cvmfs'' = ''CVMFS''"
  by (simp_all add: toupper_def char_of_neq_iff)

lemma plain_digest_names:
  "list_all plain_char ''CKSUM''" "list_all plain_char ''ADLER32''" "list_all plain_char ''CRC32''"
  "list_all plain_char ''MD5''" "list_all plain_char ''CVMFS''"
  by (simp_all add: plain_char_def isspace_def)

lemma state_values_ok:
  assumes "\<forall>d \<in> {CKSUM, ADLER32, CRC32, MD5, CVMFS}. text_ok (Get_digest st d)"
  shows "\<forall>e \<in> set (state_values st). entry_ok e" "map upper_name (state_values st) = state_values st"
proof -
  show "\<forall>e \<in> set (state_values st). entry_ok e"
    using assms plain_digest_names unfolding text_ok_def state_values_def entry_ok_def
    by (simp del: list.pred_inject)
  have "upper_name e = e" if "e \<in> set (state_values st)" for e
  proof -
    have "fst e \<in> {''CKSUM'', ''ADLER32'', ''CRC32'', ''MD5'', ''CVMFS''}"
      using that unfolding state_values_def set_filter by (auto simp del: filter.simps)
    then have "map toupper (fst e) = fst e" using upper_digest_names(1-5) by (elim insertE emptyE) (simp_all del: list.map)
    then show ?thesis by (cases e) (simp add: upper_name_def)
  qed
  then show "map upper_name (state_values st) = state_values st" by (simp add: map_idI)
qed

lemma find_from_filter:
  assumes "distinct (map (map toupper \<circ> fst) vals)"
    and "found = [] \<or> map toupper r \<notin> (map toupper \<circ> fst) ` set vals"
  shows "find_from found (filter (\<lambda>(n, v). v \<noteq> []) vals) r = find_from found vals r"
  using assms
proof (induction vals arbitrary: found)
  case (Cons e vals)
  obtain n v where e: "e = (n, v)" by fastforce
  show ?case
  proof (cases "map toupper n = map toupper r")
    case True
    then have "found = []" "map toupper r \<notin> (map toupper \<circ> fst) ` set vals" using Cons.prems by (simp_all add: e)
    with True Cons.IH [of v] Cons.IH [of "[]"] Cons.prems(1) show ?thesis by (simp add: e)
  next
    case False
    with Cons.IH [of found] Cons.prems show ?thesis by (auto simp: e)
  qed
qed simp

text \<open>
  C14. What is recorded for a file can be read back.  For the digests of a file, the text that \<^verbatim>\<open>Set\<close> has
  written parses without error, and a lookup by name gives the value of that digest, exactly as
  \<^verbatim>\<open>ChecksumState::Get\<close> gave it; a digest that was not kept is not found.
\<close>

theorem recorded_checksums_readback:
  assumes "running_digests D" and "\<forall>b \<in> set buffers. length b < 2 ^ 32"
    and "st = digest_file D j ds buffers"
  shows "\<exists>vals. Parse (render_values (state_values st)) = (0, vals) \<and>
     find_value vals ''cksum'' = Get_digest st CKSUM \<and> find_value vals ''adler32'' = Get_digest st ADLER32 \<and>
     find_value vals ''crc32'' = Get_digest st CRC32 \<and> find_value vals ''md5'' = Get_digest st MD5 \<and>
     find_value vals ''cvmfs'' = Get_digest st CVMFS"
proof -
  have ok: "\<forall>d \<in> {CKSUM, ADLER32, CRC32, MD5, CVMFS}. text_ok (Get_digest st d)"
    unfolding assms(3) using Get_digest_text_ok [OF assms(1,2)] by blast
  note sv = state_values_ok [OF this]
  have "Parse (render_values (state_values st)) = (0, state_values st)"
    using sv by (simp add: Parse_def c_str_nul_free nul_free_render parse_render)
  moreover have "find_from [] (state_values st) r =
      find_from [] [(''CKSUM'', Get_digest st CKSUM), (''ADLER32'', Get_digest st ADLER32),
      (''CRC32'', Get_digest st CRC32), (''MD5'', Get_digest st MD5), (''CVMFS'', Get_digest st CVMFS)] r"
    for r unfolding state_values_def
    by (rule find_from_filter) (simp_all del: list.map add: list.map(2) [of "map toupper \<circ> fst"] list.map(1))
  ultimately show ?thesis
    unfolding find_value_from by (simp del: list.map)
qed

theorem recorded_checksums_readback_witness:
  "\<exists>vals. Parse (render_values (state_values (digest_file example_digests 7 ALL_DIGESTS [''1234'', ''56789'']))) = (0, vals) \<and>
     find_value vals ''cksum'' = Get_digest (digest_file example_digests 7 ALL_DIGESTS [''1234'', ''56789'']) CKSUM"
  using recorded_checksums_readback [OF running_example, of "[''1234'', ''56789'']" _ 7 ALL_DIGESTS, OF _ refl]
  by auto

section \<open>Reading a whole file\<close>

text \<open>
  The outcome of the reading loop: it ends, with an error (not for a reliable file, \<open>ok\<close>) or with the rest of the file handed to \<open>upd\<close>
  in blocks, in order and without gaps.
\<close>

definition read_through ::
  "bool \<Rightarrow> bytes \<Rightarrow> ('w \<Rightarrow> bool) \<Rightarrow> nat \<Rightarrow> ('a \<Rightarrow> bytes \<Rightarrow> 'a) \<Rightarrow> int \<Rightarrow> 'a \<Rightarrow> 'md XrdHdfsFile \<Rightarrow> 'w sys
     \<Rightarrow> (int \<times> 'a \<times> 'md XrdHdfsFile \<times> 'w sys) option \<Rightarrow> bool" where
  "read_through ok data P blen upd offset acc f s r \<longleftrightarrow>
     (\<exists>retval acc' f' s'. r = Some (retval, acc', f', s') \<and> retval \<le> 0 \<and> (ok \<longrightarrow> retval = 0) \<and>
        m_state f' = m_state f \<and> P (world s') \<and> s' = s\<lparr>errno := errno s', world := world s'\<rparr> \<and>
        (retval = 0 \<longrightarrow> (\<exists>blocks. concat blocks = drop (nat offset) data \<and> acc' = foldl upd acc blocks \<and>
           (\<forall>b \<in> set blocks. length b \<le> blen))))"

lemma only_io_trans:
  assumes "s1 = s\<lparr>errno := errno s1, world := world s1\<rparr>" "s2 = s1\<lparr>errno := errno s2, world := world s2\<rparr>"
  shows "s2 = s\<lparr>errno := errno s2, world := world s2\<rparr>"
  using assms by (cases s; cases s1; cases s2) simp

lemma read_through_step:
  assumes "read_through ok data P blen upd offset' acc' f' s' r"
    and "s' = s\<lparr>errno := errno s', world := world s'\<rparr>" and "m_state f' = m_state f"
    and "(offset' = offset \<and> acc' = acc) \<or>
      (\<exists>b. drop (nat offset) data = b @ drop (nat offset') data \<and> acc' = upd acc b \<and> length b \<le> blen)"
  shows "read_through ok data P blen upd offset acc f s r"
proof -
  obtain retval a f1 s1 where r: "r = Some (retval, a, f1, s1)" "retval \<le> 0" "ok \<longrightarrow> retval = 0" "m_state f1 = m_state f"
    "P (world s1)" "s1 = s'\<lparr>errno := errno s1, world := world s1\<rparr>"
    and blocks: "retval = 0 \<longrightarrow> (\<exists>blocks. concat blocks = drop (nat offset') data \<and> a = foldl upd acc' blocks \<and>
           (\<forall>b \<in> set blocks. length b \<le> blen))"
    using assms(1,3) unfolding read_through_def by metis
  have "\<exists>blocks. concat blocks = drop (nat offset) data \<and> a = foldl upd acc blocks \<and>
           (\<forall>b \<in> set blocks. length b \<le> blen)" if zero: "retval = 0"
  proof -
    obtain bl where bl: "concat bl = drop (nat offset') data" "a = foldl upd acc' bl"
      "\<forall>b \<in> set bl. length b \<le> blen" using blocks zero by blast
    from assms(4) show ?thesis
    proof
      assume "offset' = offset \<and> acc' = acc"
      with bl show ?thesis by auto
    next
      assume "\<exists>b. drop (nat offset) data = b @ drop (nat offset') data \<and> acc' = upd acc b \<and> length b \<le> blen"
      then obtain b where "drop (nat offset) data = b @ drop (nat offset') data" "acc' = upd acc b" "length b \<le> blen"
        by blast
      with bl show ?thesis by (intro exI [of _ "b # bl"]) simp
    qed
  qed
  with r only_io_trans [OF assms(2) r(6)] show ?thesis unfolding read_through_def by blast
qed

lemma drop_segment: "drop off data = segment data off n @ drop (off + n) data"
  by (simp add: segment_def add.commute flip: drop_drop)

lemma read_loop_correct:
  assumes "pread_contract L (m_fs f) (fh f) data P mu" and "buf_inv data f" and "P (world s)"
    and "0 \<le> offset" and "offset \<le> int (length data)"
    and blen: "0 < blen" "blen < 2 ^ 31" "int (length data) + int blen < 2 ^ 63"
    and ok: "ok \<longrightarrow> pread_reliable L (m_fs f) (fh f) P"
  shows "read_through ok data P blen upd offset acc f s (read_loop L blen upd offset acc f s)"
  using assms(1-5) ok
proof (induction "mu (world s) + (length data - nat offset)" arbitrary: offset acc f s rule: less_induct)
  case less
  note prems = less.prems
  have "offset + int blen < 2 ^ 63" using prems(5) blen(3) by linarith
  from Read_served [OF prems(1-4) this blen(2)] obtain n bs f1 s1 where
    rd: "Read L offset blen f s = Some (n, bs, f1, s1)" and sl: "slice data offset blen n bs"
    and f1: "buf_inv data f1" "m_fs f1 = m_fs f" "fh f1 = fh f" "m_state f1 = m_state f" "readbuf_size f1 = readbuf_size f"
    and s1: "P (world s1)" "mu (world s1) \<le> mu (world s)" "s1 = s\<lparr>errno := errno s1, world := world s1\<rparr>"
    and int: "n = - EINTR \<longrightarrow> mu (world s1) < mu (world s)"
    and full: "pread_reliable L (m_fs f) (fh f) P \<longrightarrow> 0 \<le> n \<or> n = - EINTR"
    unfolding read_served_def by blast
  have unfold: "read_loop L blen upd offset acc f s =
      (if n = - EINTR then read_loop L blen upd offset acc f1 s1
       else if 0 < n then read_loop L blen upd (offset + n) (upd acc (take (nat n) bs)) f1 s1
       else Some (n, acc, f1, s1))"
    by (subst read_loop.simps) (simp add: rd)
  have C1: "pread_contract L (m_fs f1) (fh f1) data P mu" using prems(1) f1 by simp
  have ok1: "ok \<longrightarrow> pread_reliable L (m_fs f1) (fh f1) P" using prems(6) f1 by simp
  consider "n = - EINTR" | "0 < n" | "n \<noteq> - EINTR" "n \<le> 0" by linarith
  then show ?case
  proof cases
    case 1
    have "read_through ok data P blen upd offset acc f1 s1 (read_loop L blen upd offset acc f1 s1)"
      using 1 int by (intro less.hyps C1 f1(1) s1(1) prems(4,5) ok1) simp_all
    from read_through_step [OF this s1(3) f1(4)] 1 show ?thesis unfolding unfold by simp
  next
    case 2
    let ?b = "take (nat n) bs"
    have b: "?b = segment data (nat offset) (nat n)" "length ?b \<le> blen" "length ?b = nat n"
      using sl 2 by (auto simp: slice_def)
    have le: "nat n \<le> length data - nat offset" using b(1,3) by (metis length_segment min.cobounded2)
    have off: "nat (offset + n) = nat offset + nat n" using 2 prems(4) by simp
    have rt: "read_through ok data P blen upd (offset + n) (upd acc ?b) f1 s1
        (read_loop L blen upd (offset + n) (upd acc ?b) f1 s1)"
    proof (rule less.hyps [OF _ C1 f1(1) s1(1)])
      show "mu (world s1) + (length data - nat (offset + n)) < mu (world s) + (length data - nat offset)"
        using 2 s1(2) le off by linarith
    qed (use 2 prems(4,5) le ok1 in \<open>linarith | blast\<close>)+
    have dr: "drop (nat offset) data = ?b @ drop (nat (offset + n)) data"
      using drop_segment [of "nat offset" data "nat n"] b(1) off by simp
    have "read_through ok data P blen upd offset acc f s
        (read_loop L blen upd (offset + n) (upd acc ?b) f1 s1)"
      by (rule read_through_step [OF rt s1(3) f1(4)], rule disjI2, intro exI conjI, rule dr, rule refl, rule b(2))
    with 2 show ?thesis unfolding unfold by simp
  next
    case 3
    have "n = 0 \<Longrightarrow> drop (nat offset) data = []" using sl blen(1) by (simp add: slice_def)
    moreover have "ok \<longrightarrow> n = 0" using full prems(6) 3 by auto
    ultimately show ?thesis
      unfolding unfold read_through_def using 3 f1(4) s1
      by (auto intro!: exI [of _ "[]"])
  qed
qed

section \<open>The surroundings an operation leaves alone\<close>

definition same_env :: "'w sys \<Rightarrow> 'w sys \<Rightarrow> bool" where
  "same_env s s' \<longleftrightarrow> the_N2N s' = the_N2N s \<and> g_hdfs_oss s' = g_hdfs_oss s \<and> (mem s = [] \<longrightarrow> mem s' = [])"

lemma same_env_trans [trans]: "same_env s s1 \<Longrightarrow> same_env s1 s2 \<Longrightarrow> same_env s s2"
  by (simp add: same_env_def)

lemma same_env_refl [simp]: "same_env s s"
  by (simp add: same_env_def)

lemma same_env_real_path: "same_env s s' \<Longrightarrow> real_path s' path = real_path s path"
  by (simp add: same_env_def real_path_def)

lemma same_env_simps [simp]:
  "same_env s (acquire r s') = same_env s s'" "same_env s (release r s') = same_env s s'"
  "same_env s (free_str p s') = same_env s s'" "same_env s (s'\<lparr>errno := e\<rparr>) = same_env s s'"
  "same_env s (s'\<lparr>ub := u\<rparr>) = same_env s s'"
  by (simp_all add: same_env_def free_str_def split: option.splits)

lemma same_env_run: "run c s = (r, s') \<Longrightarrow> same_env s s'"
  by (auto simp: run_def same_env_def split: prod.splits)

lemma same_env_alloc: "alloc r s = (ok, s') \<Longrightarrow> same_env s s'"
  by (auto simp: alloc_def same_env_def acquire_def split: list.splits bool.splits)

lemma same_env_connect: "hadoop_connect L c s = (fs, s') \<Longrightarrow> same_env s s'"
  using hadoop_connect_frame [of L c s fs s'] by (simp add: same_env_def)

lemma same_env_close_file: "close_file L fs h s = (r, s') \<Longrightarrow> same_env s s'"
  by (auto simp: close_file_def dest!: same_env_run split: prod.splits)

lemma same_env_open_file: "open_file L fs p fl s = (h, s') \<Longrightarrow> same_env s s'"
  by (auto simp: open_file_def dest!: same_env_run split: prod.splits option.splits)

lemma same_env_open_error: "open_error L fs p s = (r, s') \<Longrightarrow> same_env s s'"
  by (auto simp: open_error_def path_info_def free_info_def dest!: same_env_run
      split: prod.splits option.splits)

lemma same_env_open_readbuf: "open_readbuf f s = (f', s') \<Longrightarrow> same_env s s'"
  by (auto simp: open_readbuf_def dest!: same_env_alloc split: prod.splits option.splits bool.splits)

lemma same_env_GetRealPath: "GetRealPath path s = (p, s') \<Longrightarrow> same_env s s'"
  by (auto simp: GetRealPath_strdup strdup_def dest!: same_env_alloc split: prod.splits)

lemma same_env_ChecksumManager_new: "ChecksumManager_new s = (mgr, s') \<Longrightarrow> same_env s s'"
  by (auto simp: ChecksumManager_new_def strdup_def dest!: same_env_alloc split: prod.splits)

text \<open>The steps of \<^verbatim>\<open>Open\<close> on a new object, and what they leave in it.\<close>

lemma Open_cases:
  assumes "Open L D path mode cm client f s = (r, f', s')" "fh f = None" "m_state f = None"
  shows "same_env s s'"
    "m_state f' \<noteq> None \<longleftrightarrow> fh f' \<noteq> None \<and> open_flags mode AND O_WRONLY \<noteq> 0 \<and> f_fname f' \<noteq> None \<and>
       \<not> strncmp_eq cksums_prefix (real_path s path) 7"
    "r = 0 \<Longrightarrow> fh f' \<noteq> None" "m_nextoff f' = m_nextoff f"
proof -
  obtain p s1 where p: "GetRealPath path s = (p, s1)" by fastforce
  obtain f1 s2 where rb: "open_readbuf (f\<lparr>f_fname := p\<rparr>) s1 = (f1, s2)" by fastforce
  obtain fs s3 where c: "hadoop_connect L (Some client) s2 = (fs, s3)" by fastforce
  obtain h s4 where o: "open_file L fs p (open_flags mode) s3 = (h, s4)" by fastforce
  obtain e s5 where e: "open_error L fs p s4 = (e, s5)" by fastforce
  note steps = assms(1) [unfolded Open_steps [OF assms(2) p rb c o e]]
  have env: "same_env s s3" "same_env s s4" "same_env s s5"
    using same_env_GetRealPath [OF p] same_env_open_readbuf [OF rb] same_env_connect [OF c]
      same_env_open_file [OF o] same_env_open_error [OF e] by (auto simp: same_env_def)
  with steps env show "same_env s s'" by (auto split: option.splits if_splits)
  have pp: "p = None \<or> p = Some (real_path s path)"
    using strdup_result p by (auto simp: GetRealPath_strdup)
  have f1: "m_nextoff f1 = m_nextoff f"
    using rb by (auto simp: open_readbuf_def split: prod.splits bool.splits option.splits)
  have "e \<noteq> 0" using e by (auto simp: open_error_def split: option.splits prod.splits if_splits)
  with steps f1 live_open_readbuf(2-) [OF rb] assms(2,3) pp
  show "m_state f' \<noteq> None \<longleftrightarrow> fh f' \<noteq> None \<and> open_flags mode AND O_WRONLY \<noteq> 0 \<and> f_fname f' \<noteq> None \<and>
       \<not> strncmp_eq cksums_prefix (real_path s path) 7"
    "r = 0 \<Longrightarrow> fh f' \<noteq> None" "m_nextoff f' = m_nextoff f"
    by (auto simp: Emsg_ret_nonzero split: option.splits if_splits)
qed

lemma run_result: "run c s = (r, s') \<Longrightarrow> r = fst (c (errno s) (world s))"
  by (auto simp: run_def split: prod.splits)

lemma Open_accepted:
  assumes "Open L D path mode cm client f s = (r, f', s')" "fh f = None"
    and "\<forall>i port u e w. fst (hdfsConnectAsUserNewInstance L i port u e w) \<noteq> None"
    and "\<forall>fs p fl e w. fst (hdfsOpenFile L fs p fl e w) \<noteq> None" and "mem s = []"
  shows "r = 0" "fh f' \<noteq> None" "f_fname f' = Some (real_path s path)"
proof -
  obtain f1 s2 where rb: "open_readbuf (f\<lparr>f_fname := Some (real_path s path)\<rparr>) (acquire CString s) = (f1, s2)"
    by fastforce
  obtain fs s3 where c: "hadoop_connect L (Some client) s2 = (fs, s3)" by fastforce
  obtain h s4 where o: "open_file L fs (Some (real_path s path)) (open_flags mode) s3 = (h, s4)" by fastforce
  obtain e s5 where e: "open_error L fs (Some (real_path s path)) s4 = (e, s5)" by fastforce
  note steps = assms(1) [unfolded Open_steps [OF assms(2) GetRealPath_ok [OF assms(5)] rb c o e]]
  have "fs \<noteq> None"
  proof -
    let ?u = "c_str (ExtractAuthName (Some client))"
    obtain q t where q: "run (hdfsConnectAsUserNewInstance L ''default'' 0 ?u) (s2\<lparr>errno := 0\<rparr>) = (q, t)" by fastforce
    have "q \<noteq> None" unfolding run_result [OF q] using assms(3) by blast
    with c q show ?thesis
      by (cases "g_fs_map s2 ?u") (auto simp: hadoop_connect_def hadoop_connect_as_def dest!: sym [of "Some _"])
  qed
  moreover have "h \<noteq> None"
  proof -
    obtain q t where q: "run (hdfsOpenFile L fs (Some (real_path s path)) (open_flags mode)) s3 = (q, t)" by fastforce
    have "q \<noteq> None" unfolding run_result [OF q] using assms(4) by blast
    with o q show ?thesis by (auto simp: open_file_def)
  qed
  ultimately show "r = 0" "fh f' \<noteq> None" "f_fname f' = Some (real_path s path)"
    using steps live_open_readbuf(4) [OF rb] by (auto split: option.splits if_splits)
qed


section \<open>Closing a file\<close>

text \<open>\<^verbatim>\<open>hdfsWrite\<close> returns the number of bytes written, or -1.\<close>

definition write_contract :: "'w lib \<Rightarrow> bool" where
  "write_contract L \<longleftrightarrow> (\<forall>fs h bs len e w r e' w'.
     hdfsWrite L fs h bs len e w = (r, e', w') \<longrightarrow> r = - 1 \<or> 0 \<le> r \<and> r \<le> len)"

lemma tSize_le: "tSize n \<le> int n"
  unfolding tSize_def by (simp add: signed_of_nat signed_take_bit_int_less_eq_self_iff)

lemma Write_accepted:
  assumes "write_contract L" "m_nextoff f = offset" "Write L D buff offset f s = (r, f', s')"
  shows "r = - 1 \<or> 0 \<le> r \<and> r \<le> int (length buff)" "0 \<le> r \<Longrightarrow> m_nextoff f' = offset + r"
    "m_state f' = None \<longleftrightarrow> m_state f = None" "f_fname f' = f_fname f" "same_env s s'"
proof -
  obtain r1 s1 where run: "run (hdfsWrite L (m_fs f) (fh f) buff (tSize (length buff))) s = (r1, s1)" by fastforce
  then have "r1 = - 1 \<or> 0 \<le> r1 \<and> r1 \<le> tSize (length buff)"
    using assms(1) unfolding write_contract_def run_def by (metis (no_types, lifting) case_prod_conv fst_conv prod.exhaust)
  with tSize_le [of "length buff"] run assms(2,3) same_env_run [OF run]
  show "r = - 1 \<or> 0 \<le> r \<and> r \<le> int (length buff)" "0 \<le> r \<Longrightarrow> m_nextoff f' = offset + r"
    "m_state f' = None \<longleftrightarrow> m_state f = None" "f_fname f' = f_fname f" "same_env s s'"
    by (auto simp: Write_def Let_def split: if_splits)
qed

lemma write_loop_returns:
  assumes "write_contract L" "m_nextoff f = offset" "0 \<le> offset" "offset \<le> int (length result)"
  shows "\<exists>retval f' s'. write_loop L D result offset f s = Some (retval, f', s') \<and>
    (m_state f' = None \<longleftrightarrow> m_state f = None) \<and> f_fname f' = f_fname f \<and> same_env s s'"
  using assms(2-4)
proof (induction "length result - nat offset" arbitrary: offset f s rule: less_induct)
  case less
  obtain r f1 s1 where w: "Write L D (drop (nat offset) result) offset f s = (r, f1, s1)" by (metis prod.exhaust)
  note acc = Write_accepted [OF assms(1) less.prems(1) w]
  have unfold: "write_loop L D result offset f s =
      (if 0 < r \<and> offset + r < int (length result) then write_loop L D result (offset + r) f1 s1
       else Some (r, f1, s1))"
    using acc(1) by (subst write_loop.simps) (auto simp: w)
  show ?case
  proof (cases "0 < r \<and> offset + r < int (length result)")
    case True
    then have "\<exists>retval f' s'. write_loop L D result (offset + r) f1 s1 = Some (retval, f', s') \<and>
        (m_state f' = None \<longleftrightarrow> m_state f1 = None) \<and> f_fname f' = f_fname f1 \<and> same_env s1 s'"
      using acc(2) less.prems by (intro less.hyps) auto
    with True acc(3-5) show ?thesis unfolding unfold by (auto intro: same_env_trans)
  next
    case False
    with acc(3-5) show ?thesis unfolding unfold by auto
  qed
qed

text \<open>
  An abstraction of the file behind a handle: \<open>content\<close> grows by the bytes that \<^verbatim>\<open>hdfsWrite\<close> reports, and by
  nothing when it fails.
\<close>

definition write_appends :: "'w lib \<Rightarrow> hdfsFS \<Rightarrow> hdfsFile \<Rightarrow> ('w \<Rightarrow> bytes) \<Rightarrow> bool" where
  "write_appends L fs h content \<longleftrightarrow> (\<forall>bs len e w r e' w'.
     hdfsWrite L fs h bs len e w = (r, e', w') \<longrightarrow> content w' = content w @ take (nat r) bs)"

lemma Write_appends:
  assumes "write_appends L (m_fs f) (fh f) content" "m_nextoff f = offset" "Write L D buff offset f s = (r, f', s')"
  shows "content (world s') = content (world s) @ take (nat r) buff" "m_fs f' = m_fs f" "fh f' = fh f"
proof -
  obtain r1 e1 w1 where w: "hdfsWrite L (m_fs f) (fh f) buff (tSize (length buff)) (errno s) (world s) = (r1, e1, w1)"
    by (metis prod.exhaust)
  then have "content w1 = content (world s) @ take (nat r1) buff" using assms(1) unfolding write_appends_def by blast
  with w assms(2,3) show "content (world s') = content (world s) @ take (nat r) buff" "m_fs f' = m_fs f" "fh f' = fh f"
    by (auto simp: Write_def run_def Let_def split: if_splits)
qed

lemma write_loop_content:
  assumes "write_contract L" "write_appends L (m_fs f) (fh f) content"
    and "m_nextoff f = int k" "k \<le> length result" "content (world s) = old @ take k result"
  shows "\<exists>retval f' s' k'. write_loop L D result (int k) f s = Some (retval, f', s') \<and> k' \<le> length result \<and>
    content (world s') = old @ take k' result \<and> (0 < retval \<longrightarrow> k' = length result)"
  using assms(2-5)
proof (induction "length result - k" arbitrary: k f s rule: less_induct)
  case less
  obtain r f1 s1 where w: "Write L D (drop k result) (int k) f s = (r, f1, s1)" by (metis prod.exhaust)
  note acc = Write_accepted [OF assms(1) less.prems(2) w]
  note app = Write_appends [OF less.prems(1,2) w]
  have r: "r = - 1 \<or> 0 \<le> r" "nat r \<le> length result - k" using acc(1) by auto
  have c1: "content (world s1) = old @ take (k + nat r) result"
    using app(1) less.prems(4) by (simp add: take_add)
  have unfold: "write_loop L D result (int k) f s =
      (if 0 < r \<and> int k + r < int (length result) then write_loop L D result (int k + r) f1 s1
       else Some (r, f1, s1))"
    using r(1) by (subst write_loop.simps) (auto simp: w)
  show ?case
  proof (cases "0 < r \<and> int k + r < int (length result)")
    case True
    then have n: "int (k + nat r) = int k + r" by simp
    have "\<exists>retval f' s' k'. write_loop L D result (int (k + nat r)) f1 s1 = Some (retval, f', s') \<and> k' \<le> length result \<and>
      content (world s') = old @ take k' result \<and> (0 < retval \<longrightarrow> k' = length result)"
    proof (rule less.hyps)
      show "length result - (k + nat r) < length result - k" using True by linarith
      show "write_appends L (m_fs f1) (fh f1) content" using less.prems(1) app(2,3) by simp
      show "m_nextoff f1 = int (k + nat r)" using acc(2) True n by simp
      show "k + nat r \<le> length result" using r(2) less.prems(3) by linarith
    qed (rule c1)
    with True n show ?thesis unfolding unfold by simp
  next
    case False
    have "k + nat r \<le> length result" using r(2) less.prems(3) by linarith
    moreover have "0 < r \<longrightarrow> k + nat r = length result" using False r(2) less.prems(3) by linarith
    ultimately show ?thesis unfolding unfold using False c1 by auto
  qed
qed

text \<open>
  C15. The loop that writes a checksum file returns, and what it has appended to the file is a prefix of the
  text, the whole text if the last call of \<^verbatim>\<open>hdfsWrite\<close> took something: nothing is written twice and
  nothing is left out when HDFS takes the buffer in several pieces.
\<close>

theorem write_loop_stores:
  assumes "write_contract L" and "write_appends L (m_fs f) (fh f) content" and "m_nextoff f = 0"
  shows "\<exists>retval f' s' k. write_loop L D result 0 f s = Some (retval, f', s') \<and> k \<le> length result \<and>
    content (world s') = content (world s) @ take k result \<and> (0 < retval \<longrightarrow> k = length result)"
  using write_loop_content [OF assms(1,2), of 0 result s "content (world s)" D] assms(3) by simp

text \<open>
  Whether \<^verbatim>\<open>Close\<close> returns is a question of the call that records the checksums, made in the state \<open>s1\<close>
  after the handle was closed, if there are checksums and the handle closed well.
\<close>

lemma close_with_returns:
  "\<exists>ret s1. same_env s s1 \<and> ((\<forall>fs h e w. fst (hdfsCloseFile L fs h e w) = 0) \<longrightarrow> ret = XrdOssOK) \<and>
     (close_with L D setter f s = None \<longleftrightarrow>
        (\<exists>st. m_state f = Some st \<and> ret = XrdOssOK \<and> setter (f_fname f) (Finalize D st) s1 = None))"
proof -
  obtain ret f0 s0 where h: "close_handle L f s = (ret, f0, s0)" by (metis prod.exhaust)
  obtain f1 s1 where b: "close_readbuf f0 s0 = (f1, s1)" by fastforce
  obtain r' s' where c: "close_file L (m_fs f) (fh f) s = (r', s')" by fastforce
  have r': "r' = 0" if "\<forall>fs h e w. fst (hdfsCloseFile L fs h e w) = 0"
    using c that by (auto simp: close_file_def dest!: run_result split: prod.splits)
  have f0: "m_state f0 = m_state f" "f_fname f0 = f_fname f" "same_env s s0"
    "(\<forall>fs h e w. fst (hdfsCloseFile L fs h e w) = 0) \<longrightarrow> ret = XrdOssOK"
    using h c r' same_env_close_file [OF c]
    by (auto simp: close_handle_def file_Emsg_def Let_def split: if_splits)
  have f1: "m_state f1 = m_state f0" "f_fname f1 = f_fname f0" "same_env s s1"
    using b f0(3) by (auto simp: close_readbuf_def split: option.splits)
  have "close_with L D setter f s = None \<longleftrightarrow>
        (\<exists>st. m_state f = Some st \<and> ret = XrdOssOK \<and> setter (f_fname f) (Finalize D st) s1 = None)"
  proof (cases "m_state f")
    case None
    with f0(1) f1(1) show ?thesis by (simp add: close_with_def h b)
  next
    case (Some st)
    with f0(1,2) f1(1,2) show ?thesis
      by (cases "setter (f_fname f) (Finalize D st) s1") (auto simp: close_with_def h b)
  qed
  with f0(4) f1(3) show ?thesis by (intro exI conjI)
qed

lemma Close_plain: "m_state f = None \<Longrightarrow> Close L D (Suc n) f s \<noteq> None"
  using close_with_returns [of s L D _ f] by auto

lemma flags_wronly [simp]: "open_flags O_WRONLY AND O_WRONLY \<noteq> 0" "open_flags O_RDONLY AND O_WRONLY = 0"
  by (simp_all add: open_flags_def Let_def)

lemma new_fields [simp]: "fh XrdHdfsFile_new = None" "m_state XrdHdfsFile_new = None" "m_nextoff XrdHdfsFile_new = 0"
  by (simp_all add: XrdHdfsFile_new_def)

text \<open>
  Recording checksums returns if the \<^verbatim>\<open>Close\<close> it calls returns on the object it opened; whether that
  one keeps checksums itself is decided by its real path.
\<close>

lemma SetMultiple_returns:
  assumes "write_contract L"
    and "\<And>f s'. same_env s s' \<Longrightarrow> (m_state f \<noteq> None \<longrightarrow>
        \<not> strncmp_eq cksums_prefix (real_path s (GetChecksumFilename pfn)) 7) \<Longrightarrow> close f s' \<noteq> None"
  shows "SetMultiple L D close mgr pfn vals s \<noteq> None"
proof -
  obtain rc f1 s1 where o: "Open L D (GetChecksumFilename pfn) O_WRONLY 0 (m_client mgr) XrdHdfsFile_new
      (acquire FileObj s) = (rc, f1, s1)" by (metis prod.exhaust)
  note oc = Open_cases [OF o new_fields(1,2)]
  have "same_env (acquire FileObj s) s" by (simp add: same_env_def)
  then have rp: "real_path (acquire FileObj s) p = real_path s p" for p by (simp add: real_path_def)
  obtain rv f2 s2 where w: "write_loop L D (render_values vals) 0 f1 s1 = Some (rv, f2, s2)"
    "m_state f2 = None \<longleftrightarrow> m_state f1 = None" "same_env s1 s2"
    using write_loop_returns [OF assms(1), of f1 0 "render_values vals" D s1] oc(4) by auto
  have "same_env s s2" using oc(1) w(3) by (simp add: same_env_def)
  moreover have "m_state f2 \<noteq> None \<longrightarrow> \<not> strncmp_eq cksums_prefix (real_path s (GetChecksumFilename pfn)) 7"
    using oc(2) w(2) rp by auto
  ultimately have "close f2 s2 \<noteq> None" by (rule assms(2))
  with o w(1) show ?thesis by (auto simp: SetMultiple_def newFile_def)
qed

text \<open>
  C9. Closing a file always returns when the name translation keeps the checksum files below
  \<^verbatim>\<open>/cksums\<close>: recording the checksums of a file closes one file more, and that one keeps none.  Two
  nested calls are enough for every object and every state, and more make no difference.
\<close>

theorem Close_returns:
  assumes "write_contract L" and "f_fname f = Some p"
    and "strncmp_eq cksums_prefix (real_path s (''/cksums/'' @ p)) 7"
  shows "\<exists>r f' s'. Close L D (Suc (Suc n)) f s = Some (r, f', s')"
proof -
  let ?setter = "\<lambda>fname state s. case ChecksumManager_new s of (mgr, s) \<Rightarrow>
      Set_state L D (Close L D (Suc n)) mgr fname state s"
  have "?setter (f_fname f) state s1 \<noteq> None" if "same_env s s1" for state s1
  proof -
    obtain mgr s2 where m: "ChecksumManager_new s1 = (mgr, s2)" by fastforce
    then have "same_env s s2" using same_env_ChecksumManager_new that by (blast intro: same_env_trans)
    then have "strncmp_eq cksums_prefix (real_path s2 (GetChecksumFilename (f_fname f))) 7"
      using assms(2,3) by (simp add: same_env_real_path GetChecksumFilename_def)
    then have "SetMultiple L D (Close L D (Suc n)) mgr (f_fname f) vals s2 \<noteq> None" for vals
      using Close_plain by (intro SetMultiple_returns [OF assms(1)]) blast
    then show ?thesis by (simp add: m Set_state_def)
  qed
  then have "Close L D (Suc (Suc n)) f s \<noteq> None"
    using close_with_returns [of s L D ?setter f] unfolding Close.simps by blast
  then show ?thesis by (metis not_None_eq prod.exhaust)
qed

text \<open>
  The file that records the checksums of a file, as its real name.  When HDFS accepts everything, closing a file
  with checksums closes one file more, the one of that name; it keeps checksums itself unless it is below
  \<^verbatim>\<open>/cksums\<close>.
\<close>

definition cksum_name :: "'w sys \<Rightarrow> string \<Rightarrow> string" where
  "cksum_name s p = real_path s (''/cksums/'' @ p)"

definition accepts_everything :: "'w lib \<Rightarrow> bool" where
  "accepts_everything L \<longleftrightarrow> write_contract L \<and>
     (\<forall>i port u e w. fst (hdfsConnectAsUserNewInstance L i port u e w) \<noteq> None) \<and>
     (\<forall>fs p fl e w. fst (hdfsOpenFile L fs p fl e w) \<noteq> None) \<and>
     (\<forall>fs h e w. fst (hdfsCloseFile L fs h e w) = 0)"

lemma SetMultiple_accepted:
  assumes "accepts_everything L" "g_hdfs_oss s" "mem s = []"
  shows "\<exists>f1 s1. same_env s s1 \<and> f_fname f1 = Some (cksum_name s p) \<and>
    (m_state f1 = None \<longleftrightarrow> strncmp_eq cksums_prefix (cksum_name s p) 7) \<and>
    (SetMultiple L D close mgr (Some p) vals s = None \<longleftrightarrow> close f1 s1 = None)"
proof -
  let ?path = "GetChecksumFilename (Some p)"
  obtain rc f1 s1 where o: "Open L D ?path O_WRONLY 0 (m_client mgr) XrdHdfsFile_new (acquire FileObj s) = (rc, f1, s1)"
    by (metis prod.exhaust)
  note oc = Open_cases [OF o new_fields(1,2)]
  have ok: "rc = 0" "fh f1 \<noteq> None" "f_fname f1 = Some (real_path (acquire FileObj s) ?path)"
    using Open_accepted [OF o new_fields(1)] assms(1,3) by (auto simp: accepts_everything_def)
  have rp: "real_path (acquire FileObj s) ?path = cksum_name s p"
    by (simp add: real_path_def cksum_name_def GetChecksumFilename_def)
  obtain rv f2 s2 where w: "write_loop L D (render_values vals) 0 f1 s1 = Some (rv, f2, s2)"
    "m_state f2 = None \<longleftrightarrow> m_state f1 = None" "f_fname f2 = f_fname f1" "same_env s1 s2"
    using write_loop_returns [of L f1 0 "render_values vals" D s1] oc(4) assms(1) by (auto simp: accepts_everything_def)
  have "same_env s s2" using oc(1) w(4) by (simp add: same_env_def)
  moreover have "m_state f2 = None \<longleftrightarrow> strncmp_eq cksums_prefix (cksum_name s p) 7"
    using oc(2) ok w(2) rp by auto
  moreover have "SetMultiple L D close mgr (Some p) vals s = None \<longleftrightarrow> close f2 s2 = None"
    using o ok(1) w(1) assms(2) by (cases "close f2 s2") (auto simp: SetMultiple_def newFile_def)
  ultimately show ?thesis using ok(3) w(3) rp by (intro exI conjI) simp_all
qed

lemma Close_accepted:
  assumes "accepts_everything L" "g_hdfs_oss s" "mem s = []" "f_fname f = Some p" "m_state f \<noteq> None"
  shows "\<exists>f1 s1. same_env s s1 \<and> f_fname f1 = Some (cksum_name s p) \<and>
    (m_state f1 = None \<longleftrightarrow> strncmp_eq cksums_prefix (cksum_name s p) 7) \<and>
    (Close L D (Suc n) f s = None \<longleftrightarrow> Close L D n f1 s1 = None)"
proof -
  let ?setter = "\<lambda>fname state s. case ChecksumManager_new s of (mgr, s) \<Rightarrow>
      Set_state L D (Close L D n) mgr fname state s"
  obtain st where st: "m_state f = Some st" using assms(5) by blast
  obtain s1 where s1: "same_env s s1" "Close L D (Suc n) f s = None \<longleftrightarrow> ?setter (Some p) (Finalize D st) s1 = None"
    using close_with_returns [of s L D ?setter f] assms(1,4) st by (auto simp: accepts_everything_def)
  obtain mgr s2 where m: "ChecksumManager_new s1 = (mgr, s2)" by fastforce
  have env: "same_env s s2" by (rule same_env_trans [OF s1(1) same_env_ChecksumManager_new [OF m]])
  then have "g_hdfs_oss s2" "mem s2 = []" "cksum_name s2 p = cksum_name s p"
    using assms(2,3) by (simp_all add: same_env_def cksum_name_def real_path_def)
  with SetMultiple_accepted [OF assms(1), of s2 p D "Close L D n" mgr "state_values (Finalize D st)"]
  obtain f3 s3 where "same_env s2 s3" "f_fname f3 = Some (cksum_name s p)"
    "m_state f3 = None \<longleftrightarrow> strncmp_eq cksums_prefix (cksum_name s p) 7"
    "Set_state L D (Close L D n) mgr (Some p) (Finalize D st) s2 = None \<longleftrightarrow> Close L D n f3 s3 = None"
    by (auto simp: Set_state_def)
  moreover have "Close L D (Suc n) f s = None \<longleftrightarrow> Set_state L D (Close L D n) mgr (Some p) (Finalize D st) s2 = None"
    using s1(2) m by simp
  ultimately show ?thesis using same_env_trans [OF env] by (intro exI [of _ f3] exI [of _ s3]) simp
qed

text \<open>
  C36. A name translation that takes checksum files out of \<^verbatim>\<open>/cksums\<close> makes the checksum files keep checksums too.
  Closing a written file then nests: with HDFS accepting everything, if the first \<open>k\<close> names of the chain \<open>p\<close>,
  checksum file of \<open>p\<close>, checksum file of that one and so on lie outside \<^verbatim>\<open>/cksums\<close> and the next one below
  it, \<^verbatim>\<open>Close\<close> needs exactly \<open>k + 2\<close> nested calls to return.
\<close>

theorem Close_nesting:
  assumes "accepts_everything L" and "g_hdfs_oss s" and "mem s = []"
    and "f_fname f = Some p" and "m_state f \<noteq> None"
    and "\<forall>i < k. \<not> strncmp_eq cksums_prefix ((cksum_name s ^^ Suc i) p) 7"
    and "strncmp_eq cksums_prefix ((cksum_name s ^^ Suc k) p) 7"
  shows "Close L D n f s = None \<longleftrightarrow> n < k + 2"
  using assms(2-)
proof (induction k arbitrary: n f s p)
  case 0
  show ?case
  proof (cases n)
    case (Suc m)
    from 0(6) have "strncmp_eq cksums_prefix (cksum_name s p) 7" by simp
    with Close_accepted [OF assms(1) 0(1-4), of D m]
    obtain f1 s1 where "m_state f1 = None" "Close L D (Suc m) f s = None \<longleftrightarrow> Close L D m f1 s1 = None" by metis
    with Suc Close_plain [of f1 L D _ s1] show ?thesis by (cases m) (auto simp del: Close.simps(2))
  qed simp
next
  case (Suc k)
  show ?case
  proof (cases n)
    case (Suc m)
    from Close_accepted [OF assms(1) Suc.prems(1-4), of D m] Suc.prems(5)
    obtain f1 s1 where c: "same_env s s1" "f_fname f1 = Some (cksum_name s p)" "m_state f1 \<noteq> None"
      "Close L D (Suc m) f s = None \<longleftrightarrow> Close L D m f1 s1 = None" by fastforce
    have same: "cksum_name s1 = cksum_name s"
      by (rule ext) (simp add: cksum_name_def same_env_real_path [OF c(1)])
    have names: "(cksum_name s ^^ i) (cksum_name s p) = (cksum_name s ^^ Suc i) p" for i
      by (simp add: funpow_swap1)
    have "Close L D m f1 s1 = None \<longleftrightarrow> m < k + 2"
      using Suc.prems c(1-3) by (intro Suc.IH [where p = "cksum_name s p"]) (auto simp: same names same_env_def)
    with c(4) Suc show ?thesis by simp
  qed simp
qed

lemma mini_write_contract: "hdfsWrite L = mini_write \<Longrightarrow> write_contract L"
  by (auto simp: write_contract_def mini_write_def split: option.splits if_splits)

theorem Close_returns_witness:
  "\<exists>r f' s'. Close mini_lib example_digests 2 (fst alice_write) (snd alice_write) = Some (r, f', s')"
proof -
  have "f_fname (fst alice_write) = Some ''/d/n''" "the_N2N (snd alice_write) = None"
    by (simp_all add: alice_write_def open_eval mini_world_def mini_put_def strncmp_eq_def cksums_prefix_def)
  then show ?thesis
    using Close_returns [OF mini_write_contract, of mini_lib "fst alice_write" "''/d/n''" "snd alice_write"
        example_digests 0]
    by (simp add: real_path_def strncmp_eq_def cksums_prefix_def numeral_2_eq_2)
qed

text \<open>
  A cluster that accepts everything, and a name translation that prefixes every name, unless the result does not
  fit the buffer.
\<close>

definition yes_lib :: "mini lib" where
  "yes_lib = mini_lib\<lparr>hdfsConnectAsUserNewInstance := (\<lambda>i port u e w. (Some 1, e, w)),
     hdfsOpenFile := (\<lambda>fs p fl e w. (Some 1, e, w))\<rparr>"

definition store_n2n :: n2n where
  "store_n2n p blen = (if int (length p) + 6 < blen then (0, ''/store'' @ p) else (ENAMETOOLONG, []))"

definition store_sys :: "mini sys" where
  "store_sys = mini_sys\<lparr>the_N2N := Some store_n2n\<rparr>"

definition store_chain :: "nat \<Rightarrow> string" where
  "store_chain i = concat (replicate i ''/store/cksums/'') @ ''/store/d/n''"

lemma store_chain:
  "length (store_chain i) = 14 * i + 10" "nul_free (store_chain i)"
  "\<not> strncmp_eq cksums_prefix (store_chain i) 7"
proof -
  show "length (store_chain i) = 14 * i + 10" by (induction i) (simp_all add: store_chain_def)
  show "nul_free (store_chain i)" by (induction i) (simp_all add: store_chain_def nul_free_def)
  show "\<not> strncmp_eq cksums_prefix (store_chain i) 7"
    by (cases i) (simp_all add: store_chain_def strncmp_eq_def cksums_prefix_def)
qed

lemma store_next:
  "cksum_name store_sys (store_chain i) = (if i < 72 then store_chain (Suc i) else ''/cksums/'' @ store_chain i)"
proof -
  have "c_str (''/store/cksums/'' @ store_chain i) = ''/store/cksums/'' @ store_chain i"
    using store_chain(2) [of i] by (intro c_str_nul_free) (simp add: nul_free_def)
  moreover have "store_chain (Suc i) = ''/store/cksums/'' @ store_chain i" by (simp add: store_chain_def)
  ultimately show ?thesis
    by (auto simp: cksum_name_def real_path_def store_sys_def n2n_call_def store_n2n_def store_chain(1))
qed

lemma store_iterate: "i \<le> 72 \<Longrightarrow> (cksum_name store_sys ^^ i) (store_chain 0) = store_chain i"
  by (induction i) (simp_all add: store_next)

theorem Close_nesting_witness:
  "\<forall>n. Close yes_lib example_digests n ((fst alice_write)\<lparr>f_fname := Some (store_chain 0)\<rparr>) store_sys = None \<longleftrightarrow> n < 74"
proof
  fix n
  let ?f = "(fst alice_write)\<lparr>f_fname := Some (store_chain 0)\<rparr>"
  have lib: "accepts_everything yes_lib"
    by (simp add: accepts_everything_def yes_lib_def mini_write_contract)
  have sys: "g_hdfs_oss store_sys" "mem store_sys = []" "f_fname ?f = Some (store_chain 0)" "m_state ?f \<noteq> None"
    by (simp_all add: store_sys_def alice_write_open(2))
  have out: "\<forall>i < 72. \<not> strncmp_eq cksums_prefix ((cksum_name store_sys ^^ Suc i) (store_chain 0)) 7"
    by (simp add: store_iterate store_chain(3) del: funpow.simps)
  have below: "strncmp_eq cksums_prefix ((cksum_name store_sys ^^ Suc 72) (store_chain 0)) 7"
    unfolding funpow.simps(2) o_def by (simp add: store_iterate store_next strncmp_eq_def cksums_prefix_def)
  show "Close yes_lib example_digests n ?f store_sys = None \<longleftrightarrow> n < 74"
    using Close_nesting [OF lib sys out below, of example_digests n] by simp
qed

text \<open>A cluster that takes three bytes at a time.\<close>

definition slow_lib :: "mini lib" where
  "slow_lib = mini_lib\<lparr>hdfsWrite := (\<lambda>fs h bs len. mini_write fs h bs (min 3 len))\<rparr>"

definition mini_content :: "hdfsFile \<Rightarrow> mini \<Rightarrow> bytes" where
  "mini_content h w = (case mini_data h w of None \<Rightarrow> [] | Some c \<Rightarrow> c)"

lemma slow_write: "write_contract slow_lib" "write_appends slow_lib fs h (mini_content h)"
proof -
  show "write_contract slow_lib"
    by (auto simp: write_contract_def slow_lib_def mini_write_def split: option.splits if_splits)
  show "write_appends slow_lib fs h (mini_content h)"
  proof (cases h)
    case (Some i)
    then show ?thesis
      by (auto simp: write_appends_def slow_lib_def mini_write_def mini_content_def mini_data_def mini_put_def
          split: option.splits if_splits)
  qed (simp add: write_appends_def slow_lib_def mini_write_def mini_content_def mini_data_def)
qed

theorem write_loop_stores_witness:
  "\<exists>retval f' s' k. write_loop slow_lib example_digests ''MD5:00ff'' 0 (fst alice_write) (snd alice_write) = Some (retval, f', s') \<and>
     mini_content (Some 1) (world s') = mini_content (Some 1) (world (snd alice_write)) @ take k ''MD5:00ff''"
  using write_loop_stores [OF slow_write alice_write_open(3)] alice_write_open(4) by metis

end
