(* ===== verification/Hdfs_ChecksumAccess.thy ===== *)
theory Hdfs_ChecksumAccess
  imports Hdfs_ChecksumManager
begin

text \<open>
  What the operations of the checksum manager give a caller: the contents of a checksum file, the
  lookup of a value and its failures, the computation of a digest from a file, and verification.
  The \<^verbatim>\<open>Close\<close> that the manager calls is the real one, \<open>Close L D (Suc n)\<close>.
\<close>

section \<open>Reading the checksum file\<close>

lemma foldl_c_str:
  assumes "nul_free (concat blocks)"
  shows "foldl (\<lambda>ss bs. ss @ c_str bs) acc blocks = acc @ concat blocks"
  using assms by (induction blocks arbitrary: acc) (simp_all add: c_str_nul_free)

lemma Open_rdonly:
  assumes "Open L D path O_RDONLY cm client XrdHdfsFile_new s = (r, f', s')"
  shows "m_state f' = None" "buf_inv data f'"
  using Open_cases(2) [OF assms new_fields(1,2)] Open_buf_inv [OF assms] by simp_all

lemma same_env_close_plain:
  assumes "m_state f = None" "Close L D (Suc n) f s = Some (r, f', s')"
  shows "same_env s s'"
proof -
  obtain ret f0 s0 where h: "close_handle L f s = (ret, f0, s0)" by (metis prod.exhaust)
  obtain f1 s1 where b: "close_readbuf f0 s0 = (f1, s1)" by fastforce
  obtain r' s' where c: "close_file L (m_fs f) (fh f) s = (r', s')" by fastforce
  have "same_env s s0" "m_state f0 = None"
    using h c assms(1) same_env_close_file [OF c]
    by (auto simp: close_handle_def file_Emsg_def Let_def split: if_splits)
  then have "same_env s s1" "m_state f1 = None" using b by (auto simp: close_readbuf_def split: option.splits)
  then show ?thesis using assms(2) by (auto simp: close_with_def h b)
qed

lemma same_env_delete_file: "same_env s (delete_file L f s)"
proof -
  obtain r' s' where c: "close_file L (m_fs f) (fh f) s = (r', s')" by fastforce
  then show ?thesis
    using same_env_close_file [OF c]
    by (simp add: delete_file_def XrdHdfsFile_delete_def hadoop_disconnect_def Let_def)
qed

lemma same_env_io: "s' = s\<lparr>errno := errno s', world := world s'\<rparr> \<Longrightarrow> same_env s s'"
  by (cases s; cases s') (simp add: same_env_def)

text \<open>Opening a file, reading it through, closing it and deleting the object.\<close>

lemma read_and_close:
  assumes "Open L D path O_RDONLY 0 client XrdHdfsFile_new (acquire FileObj s) = (0, f, s1)"
    and "pread_contract L (m_fs f) (fh f) data P mu" and "P (world s1)"
    and "0 < blen" and "blen < 2 ^ 31" and "int (length data) + int blen < 2 ^ 63"
  shows "\<exists>rv acc' f2 s2 r3 f3 s3. read_loop L blen upd 0 acc f s1 = Some (rv, acc', f2, s2) \<and>
     Close L D (Suc n) f2 s2 = Some (r3, f3, s3) \<and> same_env s (delete_file L f3 s3) \<and> rv \<le> 0 \<and>
     (pread_reliable L (m_fs f) (fh f) P \<longrightarrow> rv = 0) \<and>
     (rv = 0 \<longrightarrow> (\<exists>blocks. concat blocks = data \<and> acc' = foldl upd acc blocks \<and> (\<forall>b \<in> set blocks. length b \<le> blen)))"
proof -
  define ok where "ok \<longleftrightarrow> pread_reliable L (m_fs f) (fh f) P"
  have "read_through ok data P blen upd 0 acc f s1 (read_loop L blen upd 0 acc f s1)"
    using assms(2-6) Open_rdonly(2) [OF assms(1)] by (intro read_loop_correct) (simp_all add: ok_def)
  then obtain rv acc' f2 s2 where rd: "read_loop L blen upd 0 acc f s1 = Some (rv, acc', f2, s2)"
    and rv: "rv \<le> 0" "ok \<longrightarrow> rv = 0" and f2: "m_state f2 = m_state f"
    and s2: "s2 = s1\<lparr>errno := errno s2, world := world s2\<rparr>"
    and bl: "rv = 0 \<longrightarrow> (\<exists>blocks. concat blocks = drop (nat 0) data \<and> acc' = foldl upd acc blocks \<and>
           (\<forall>b \<in> set blocks. length b \<le> blen))"
    unfolding read_through_def by blast
  have none: "m_state f2 = None" using f2 Open_rdonly(1) [OF assms(1)] by simp
  obtain r3 f3 s3 where cl: "Close L D (Suc n) f2 s2 = Some (r3, f3, s3)"
    using Close_plain [OF none, of L D n s2] by (cases "Close L D (Suc n) f2 s2") auto
  have "same_env s s3"
    using Open_cases(1) [OF assms(1) new_fields(1,2)] same_env_io [OF s2] same_env_close_plain [OF none cl]
    by (simp add: same_env_def)
  then have "same_env s (delete_file L f3 s3)" using same_env_delete_file by (rule same_env_trans)
  with rd cl rv bl show ?thesis unfolding ok_def by auto
qed

lemma GetFileContents_opened:
  assumes "g_hdfs_oss s"
    and "Open L D (GetChecksumFilename pfn) O_RDONLY 0 (m_client mgr) XrdHdfsFile_new (acquire FileObj s) = (0, f, s1)"
    and "pread_contract L (m_fs f) (fh f) data P mu" and "P (world s1)"
    and "nul_free data" and "int (length data) + 4095 < 2 ^ 63"
  shows "\<exists>rc contents s'. GetFileContents L D (Close L D (Suc n)) mgr pfn s = Some (rc, contents, s') \<and>
     rc \<le> 0 \<and> (rc = 0 \<longrightarrow> contents = data) \<and> same_env s s' \<and>
     (pread_reliable L (m_fs f) (fh f) P \<longrightarrow> rc = 0)"
proof -
  have "0 < (4095 :: nat)" "(4095 :: nat) < 2 ^ 31" "int (length data) + int 4095 < 2 ^ 63"
    using assms(6) by simp_all
  from read_and_close [OF assms(2-4) this, of "\<lambda>ss bs. ss @ c_str bs" "[]" n]
  obtain rv acc f2 s2 r3 f3 s3 where rd: "read_loop L 4095 (\<lambda>ss bs. ss @ c_str bs) 0 [] f s1 = Some (rv, acc, f2, s2)"
    "Close L D (Suc n) f2 s2 = Some (r3, f3, s3)" "same_env s (delete_file L f3 s3)" "rv \<le> 0"
    "pread_reliable L (m_fs f) (fh f) P \<longrightarrow> rv = 0"
    "rv = 0 \<longrightarrow> (\<exists>blocks. concat blocks = data \<and> acc = foldl (\<lambda>ss bs. ss @ c_str bs) [] blocks \<and>
       (\<forall>b \<in> set blocks. length b \<le> 4095))"
    by blast
  then have "rv = 0 \<longrightarrow> acc = data" using assms(5) by (auto simp: foldl_c_str)
  with assms(1,2) rd show ?thesis by (auto simp: GetFileContents_def newFile_def Let_def simp del: Close.simps)
qed

text \<open>
  C13. The manager reads a checksum file completely: when the file opens, \<^verbatim>\<open>GetFileContents\<close> returns, and
  success means that its result is the whole text of the file, whatever the size of the blocks, short
  reads and interruptions (for text without nulls, which is what the manager writes).  If reads do
  not fail, it succeeds.
\<close>

theorem GetFileContents_complete:
  assumes "g_hdfs_oss s"
    and "Open L D (GetChecksumFilename pfn) O_RDONLY 0 (m_client mgr) XrdHdfsFile_new (acquire FileObj s) = (0, f, s1)"
    and "pread_contract L (m_fs f) (fh f) data P mu" and "P (world s1)"
    and "nul_free data" and "int (length data) + 4095 < 2 ^ 63"
  shows "\<exists>rc contents s'. GetFileContents L D (Close L D (Suc n)) mgr pfn s = Some (rc, contents, s') \<and>
     rc \<le> 0 \<and> (rc = 0 \<longrightarrow> contents = data) \<and>
     (pread_reliable L (m_fs f) (fh f) P \<longrightarrow> rc = 0)"
  using GetFileContents_opened [OF assms, of n] by blast


section \<open>Looking a checksum up\<close>

lemma find_value_upper: "find_value (map upper_name vals) r = find_value vals r"
proof -
  have "find_from found (map upper_name vals) r = find_from found vals r" for found
    by (induction vals arbitrary: found) (auto simp: upper_name_def comp_def)
  then show ?thesis by (simp add: find_value_from)
qed

text \<open>
  C12. Looking a recorded checksum up gives its value: when the checksum file holds well-formed entries
  and the last one under the requested name, in any case, has the value \<open>v\<close> and fits, \<^verbatim>\<open>Get\<close> returns, and
  on success the caller's object was set to \<open>v\<close>; with reads that do not fail it does succeed.
\<close>

theorem Get_returns_recorded:
  assumes "g_hdfs_oss s"
    and "Open L D (''/cksums/'' @ pfn) O_RDONLY 0 (m_client mgr) XrdHdfsFile_new (acquire FileObj s) = (0, f, s1)"
    and "pread_contract L (m_fs f) (fh f) (render_values vals) P mu" and "P (world s1)"
    and "int (length (render_values vals)) + 4095 < 2 ^ 63"
    and "\<forall>e \<in> set vals. entry_ok e"
    and "v = find_value vals (requested_checksum mgr cks)" and "v \<noteq> []" and "length v \<le> ValuSize K"
  shows "\<exists>rc cks' s'. Get L D K (Close L D (Suc n)) mgr pfn cks s = Some (rc, cks', s') \<and>
     (rc = 0 \<longrightarrow> cks' = cks_Set K cks v (length v)) \<and> (rc \<noteq> 0 \<longrightarrow> rc < 0 \<and> cks' = cks) \<and>
     (pread_reliable L (m_fs f) (fh f) P \<longrightarrow> rc = 0)"
proof -
  have fn: "GetChecksumFilename (Some pfn) = ''/cksums/'' @ pfn" by (simp add: GetChecksumFilename_def)
  obtain rc contents s2 where c: "GetFileContents L D (Close L D (Suc n)) mgr (Some pfn) s = Some (rc, contents, s2)"
    "rc \<le> 0" "rc = 0 \<longrightarrow> contents = render_values vals"
    "pread_reliable L (m_fs f) (fh f) P \<longrightarrow> rc = 0"
    using GetFileContents_opened [OF assms(1) assms(2) [folded fn] assms(3,4) nul_free_render [OF assms(6)] assms(5), of n]
    by blast
  have p: "Parse (render_values vals) = (0, map upper_name vals)"
    using assms(6) by (simp add: Parse_def c_str_nul_free nul_free_render parse_render)
  show ?thesis
    using c(1) c(2-4) p assms(7-9) by (cases "rc = 0") (auto simp: Get_def Let_def find_value_upper simp del: Close.simps)
qed

text \<open>
  C37. Asking for a digest that the checksum file does not have destroys the data: \<^verbatim>\<open>Get\<close> reports
  \<open>ESRCH\<close> and calls \<^verbatim>\<open>Del\<close>, which deletes the file \<open>pfn\<close> itself from HDFS, not its checksum file.
\<close>

theorem Get_missing_digest_unlinks:
  assumes "GetFileContents L D close mgr (Some pfn) s = Some (0, render_values vals, s1)"
    and "\<forall>e \<in> set vals. entry_ok e" and "find_value vals (requested_checksum mgr cks) = []"
    and "g_hdfs_oss s1" and "mem s1 = []" and "hadoop_connect L None (acquire CString s1) = (Some fs, s2)"
    and "hdfsDelete L (Some fs) (real_path s1 pfn) 0 0 (world s2) = (0, e, w)"
  shows "\<exists>s'. Get L D K close mgr pfn cks s = Some (- ESRCH, cks, s') \<and> world s' = w"
proof -
  have "Parse (render_values vals) = (0, map upper_name vals)"
    using assms(2) by (simp add: Parse_def c_str_nul_free nul_free_render parse_render)
  moreover have "world (snd (Unlink L pfn None s1)) = w"
    using assms(7) by (simp add: Unlink_def with_fs_run [OF assms(5,6)] unlink_work_def run_def)
  ultimately show ?thesis
    using assms(1,3,4) by (simp add: Get_def Del_def find_value_upper Let_def)
qed

text \<open>
  C38. \<^verbatim>\<open>Ver\<close> verifies against the recorded \<open>adler32\<close> value only: it looks up with an \<^verbatim>\<open>XrdCksData\<close> of its
  own, whose name is empty.  If that lookup fails, whatever the digest of the caller is, the file is
  not checked: the recalculation is refused with \<open>ENOTSUP\<close>.
\<close>

theorem Ver_needs_adler32:
  assumes "cks_Name (cks_default K) = Some []" and "0 < NameSize K"
    and "Get L D K close mgr pfn (cks_default K) s = Some (rc, cks_default K, s1)" and "rc \<noteq> 0"
  shows "requested_checksum mgr (cks_default K) = ''adler32'' \<and>
         Ver L D K close mgr pfn cks s = Some (- ENOTSUP, s1)"
proof -
  obtain k where k: "NameSize K = Suc k" using assms(2) gr0_implies_Suc by blast
  have "calc_digest K [] = None"
    by (simp add: calc_digest_def k strncasecmp_eq_def strncmp_eq_def tolower_def)
  with assms show ?thesis by (simp add: requested_checksum_def Ver_def Calc_def)
qed


section \<open>Computing a checksum\<close>

text \<open>The digests of \<open>data\<close> that are functions of the data, as text: POSIX cksum, Adler-32 and MD5.\<close>

definition digest_text :: "'md cklib \<Rightarrow> 32 word \<Rightarrow> bytes \<Rightarrow> string" where
  "digest_text D d data =
     (if d = CKSUM then show_nat (unat (posix_cksum data))
      else if d = ADLER32 then hex_word (adler32 D (adler32_init D) data)
      else concat (map hex_byte (EVP_DigestFinal_ex D (EVP_DigestUpdate D (EVP_md5 D) data))))"

lemma has_OR: "has (x OR d) d \<longleftrightarrow> d \<noteq> 0"
proof -
  have "(x OR d) AND d = d" by (simp add: bit_eq_iff bit_simps)
  then show ?thesis by (simp add: has_def)
qed

lemma calc_digest_cases: "calc_digest K name = Some d \<Longrightarrow> d \<in> {MD5, CKSUM, CRC32, ADLER32}"
  by (auto simp: calc_digest_def split: if_splits)

lemma digest_text_blocks:
  assumes "running_digests D" "\<forall>b \<in> set blocks. length b < 2 ^ 32" "calc_digest K name = Some d" "d \<noteq> CRC32"
  shows "Get_digest (digest_file D j (x OR d) blocks) d = digest_text D d (concat blocks)"
  using calc_digest_cases [OF assms(3)] assms(4) digest_file_values [OF assms(1,2), of "x OR d" j]
  by (auto simp: digest_text_def has_OR)

lemma Set_state_returns:
  assumes "write_contract L" "strncmp_eq cksums_prefix (real_path s (''/cksums/'' @ pfn)) 7"
  shows "Set_state L D (Close L D (Suc n)) mgr (Some pfn) st s \<noteq> None"
  unfolding Set_state_def
  using assms(2) Close_plain by (intro SetMultiple_returns [OF assms(1)]) (auto simp: GetChecksumFilename_def)

text \<open>
  C11. \<^verbatim>\<open>Calc\<close> computes the POSIX cksum, the Adler-32 or the MD5 of a file when it is asked for it.  When the file
  opens, it always returns: either the caller's object was set to that digest of exactly the bytes of the file, or
  \<^verbatim>\<open>Calc\<close> reports \<open>EIO\<close> and left the object alone.  With reads that do not fail and a digest that is not empty it
  succeeds.  The fourth digest it accepts, \<open>crc32\<close>, is excluded: its running value starts from uninitialised memory,
  so what is computed is no function of the file.
\<close>

theorem Calc_computes_digest:
  assumes "running_digests D" and "write_contract L"
    and "cks_Name cks = Some name" and "calc_digest K name = Some d" and "d \<noteq> CRC32" and "g_hdfs_oss s"
    and "Open L D pfn O_RDONLY 0 (m_client mgr) XrdHdfsFile_new (acquire FileObj s) = (0, f, s1)"
    and "pread_contract L (m_fs f) (fh f) data P mu" and "P (world s1)"
    and "int (length data) + 262144 < 2 ^ 63"
    and "strncmp_eq cksums_prefix (real_path s (''/cksums/'' @ pfn)) 7"
    and "v = digest_text D d data"
  shows "\<exists>rc cks' s'. Calc L D K (Close L D (Suc n)) mgr pfn cks do_set s = Some (rc, cks', s') \<and>
     (rc = 0 \<and> cks' = cks_Set K cks v (length v) \<or> rc = - EIO \<and> cks' = cks) \<and>
     (pread_reliable L (m_fs f) (fh f) P \<and> v \<noteq> [] \<longrightarrow> rc = 0)"
proof -
  define ds where "ds = (if do_set \<noteq> 0 then ALL_DIGESTS else 0) OR d"
  let ?st = "ChecksumState_new D (junk32 s1) ds"
  have "0 < (262144 :: nat)" "(262144 :: nat) < 2 ^ 31" "int (length data) + int 262144 < 2 ^ 63"
    using assms(10) by simp_all
  from read_and_close [OF assms(7-9) this, of "Update D" ?st n]
  obtain rv st f2 s2 r3 f3 s3 where rd: "read_loop L 262144 (Update D) 0 ?st f s1 = Some (rv, st, f2, s2)"
    "Close L D (Suc n) f2 s2 = Some (r3, f3, s3)" and env: "same_env s (delete_file L f3 s3)"
    and rv: "rv \<le> 0" "pread_reliable L (m_fs f) (fh f) P \<longrightarrow> rv = 0"
    and bl: "rv = 0 \<longrightarrow> (\<exists>blocks. concat blocks = data \<and> st = foldl (Update D) ?st blocks \<and>
           (\<forall>b \<in> set blocks. length b \<le> 262144))"
    by blast
  let ?s4 = "delete_file L f3 s3"
  from env have "Set_state L D (Close L D (Suc n)) mgr (Some pfn) st' ?s4 \<noteq> None" for st'
    using assms(11) by (intro Set_state_returns [OF assms(2)]) (simp add: same_env_real_path)
  then obtain r5 s5 where set: "Set_state L D (Close L D (Suc n)) mgr (Some pfn) (Finalize D st) ?s4 = Some (r5, s5)"
    by fastforce
  have val: "Get_digest (Finalize D st) d = v" if zero: "rv = 0"
  proof -
    obtain blocks where b: "concat blocks = data" "st = foldl (Update D) ?st blocks" "\<forall>b \<in> set blocks. length b \<le> 262144"
      using bl zero by auto
    then have "\<forall>b \<in> set blocks. length b < 2 ^ 32" by fastforce
    from digest_text_blocks [OF assms(1) this assms(4,5), of "junk32 s1"] b assms(12)
    show ?thesis by (simp add: digest_file_def ds_def)
  qed
  have "Calc L D K (Close L D (Suc n)) mgr pfn cks do_set s =
      (if rv < 0 then Some (- EIO, cks, ?s4)
       else if Get_digest (Finalize D st) d = [] then Some (- EIO, cks, s5)
       else Some (0, cks_Set K cks (Get_digest (Finalize D st) d) (length (Get_digest (Finalize D st) d)), s5))"
    using assms(3,4,6,7) rd set
    by (simp add: Calc_def newFile_def Let_def ds_def [symmetric] del: Close.simps)
  then show ?thesis using rv val by (cases "rv = 0") auto
qed


section \<open>Examples\<close>

text \<open>A cluster with a file and a checksum file for it, and a checksum library that keeps text.\<close>

definition cks_world :: mini where
  "cks_world = mini_world\<lparr>mini_files := (''/cksums//d/a'', render_values [(''MD5'', ''00ff''), (''CKSUM'', ''42'')])
     # mini_files mini_world\<rparr>"

definition cks_sys :: "mini sys" where
  "cks_sys = mini_sys\<lparr>world := cks_world\<rparr>"

definition text_cks :: ckslib where
  "text_cks = \<lparr>NameSize = 16, ValuSize = 64, cks_Set = (\<lambda>cks v n. cks\<lparr>cks_Value := take n v, cks_Length := n\<rparr>),
     cks_Get = (\<lambda>cks n. take (n - 1) (cks_Value cks)), cks_default = \<lparr>cks_Name = Some [], cks_Value = [], cks_Length = 0\<rparr>\<rparr>"

definition root_manager :: ChecksumManager where
  "root_manager = \<lparr>m_client = \<lparr>secEnv = Some \<lparr>request_name = None, sec_name = Some ''root''\<rparr>\<rparr>, m_default_digest = []\<rparr>"

definition asked :: "string \<Rightarrow> XrdCksData" where
  "asked name = \<lparr>cks_Name = Some name, cks_Value = [], cks_Length = 0\<rparr>"

text \<open>The same cluster, which connects everybody and deletes whatever it is told to.\<close>

definition del_lib :: "mini lib" where
  "del_lib = mini_lib\<lparr>hdfsConnectAsUserNewInstance := (\<lambda>i port u e w. (Some 1, e, w)),
     hdfsDelete := (\<lambda>fs p r e w. (0, e, w\<lparr>mini_files := filter (\<lambda>(q, _). q \<noteq> p) (mini_files w)\<rparr>))\<rparr>"

definition cks_file :: "bytes XrdHdfsFile \<times> mini sys" where
  "cks_file = snd (Open del_lib example_digests ''/cksums//d/a'' O_RDONLY 0 (m_client root_manager) XrdHdfsFile_new
     (acquire FileObj cks_sys))"

lemma del_lib_connect:
  "\<exists>fs s2. hadoop_connect del_lib c s = (Some fs, s2) \<and> world s2 = world s"
  by (cases "g_fs_map s (c_str (ExtractAuthName c))")
    (simp_all add: hadoop_connect_def hadoop_connect_as_def run_def del_lib_def)

lemma cks_file_open:
  "Open del_lib example_digests ''/cksums//d/a'' O_RDONLY 0 (m_client root_manager) XrdHdfsFile_new
     (acquire FileObj cks_sys) = (0, fst cks_file, snd cks_file)"
  "mini_data (fh (fst cks_file)) (world (snd cks_file)) = Some (render_values [(''MD5'', ''00ff''), (''CKSUM'', ''42'')])"
  "readbuf_size (fst cks_file) = 32768" "g_hdfs_oss cks_sys"
  by (simp_all add: cks_file_def cks_sys_def cks_world_def open_eval hadoop_connect_def hadoop_connect_as_def
      del_lib_def mini_data_def)

lemma del_lib_pread:
  "pread_contract del_lib fs h data (\<lambda>w. mini_data h w = Some data) (\<lambda>w. length (mini_sched w))"
  "pread_reliable del_lib fs h (\<lambda>w. mini_data h w = Some data)"
proof -
  have eq: "hdfsPread del_lib = hdfsPread mini_lib" by (simp add: del_lib_def)
  show "pread_contract del_lib fs h data (\<lambda>w. mini_data h w = Some data) (\<lambda>w. length (mini_sched w))"
    unfolding pread_contract_def eq by (rule mini_pread_contract [unfolded pread_contract_def])
  show "pread_reliable del_lib fs h (\<lambda>w. mini_data h w = Some data)"
    unfolding pread_reliable_def eq by (rule mini_pread_reliable [unfolded pread_reliable_def])
qed

abbreviation cks_values :: ChecksumValues where
  "cks_values \<equiv> [(''MD5'', ''00ff''), (''CKSUM'', ''42'')]"

lemma cks_values_ok:
  "\<forall>e \<in> set cks_values. entry_ok e" "nul_free (render_values cks_values)" "length (render_values cks_values) = 18"
proof -
  show ok: "\<forall>e \<in> set cks_values. entry_ok e"
    by (simp add: entry_ok_def plain_char_def isspace_def)
  then show "nul_free (render_values cks_values)" by (rule nul_free_render)
  show "length (render_values cks_values) = 18" by (simp add: render_values_def)
qed

theorem GetFileContents_complete_witness:
  "\<exists>s'. GetFileContents del_lib example_digests (Close del_lib example_digests 1) root_manager (Some ''/d/a'') cks_sys
     = Some (0, render_values cks_values, s')"
proof -
  have "GetChecksumFilename (Some ''/d/a'') = ''/cksums//d/a''" by (simp add: GetChecksumFilename_def)
  with GetFileContents_complete [OF cks_file_open(4) _ del_lib_pread(1) cks_file_open(2) cks_values_ok(2),
      of example_digests "Some ''/d/a''" root_manager 0] cks_file_open(1,3) cks_values_ok(3)
    del_lib_pread(2) [of "m_fs (fst cks_file)" "fh (fst cks_file)" "render_values cks_values"]
  show ?thesis by (simp del: Close.simps)
qed

theorem Get_returns_recorded_witness:
  "\<exists>s'. Get del_lib example_digests text_cks (Close del_lib example_digests 1) root_manager ''/d/a'' (asked ''md5'') cks_sys
     = Some (0, cks_Set text_cks (asked ''md5'') ''00ff'' (length ''00ff''), s')"
proof -
  have "find_value cks_values ''md5'' = ''00ff''"
    by (simp add: find_value_from del: list.map)
  then have "requested_checksum root_manager (asked ''md5'') = ''md5''"
    "''00ff'' = find_value cks_values (requested_checksum root_manager (asked ''md5''))"
    by (simp_all add: requested_checksum_def asked_def)
  with Get_returns_recorded [OF cks_file_open(4) _ del_lib_pread(1) cks_file_open(2) _ cks_values_ok(1),
      of example_digests "''/d/a''" root_manager "''00ff''" "asked ''md5''" text_cks 0]
    cks_file_open(1,3) cks_values_ok(3)
    del_lib_pread(2) [of "m_fs (fst cks_file)" "fh (fst cks_file)" "render_values cks_values"]
  show ?thesis by (simp add: text_cks_def del: Close.simps)
qed

theorem Get_missing_digest_unlinks_witness:
  "\<exists>s'. Get del_lib example_digests text_cks (Close del_lib example_digests 1) root_manager ''/d/a'' (asked ''adler32'') cks_sys
     = Some (- ESRCH, asked ''adler32'', s') \<and> map_of (mini_files (world s')) ''/d/a'' = None"
proof -
  have fn: "GetChecksumFilename (Some ''/d/a'') = ''/cksums//d/a''" by (simp add: GetChecksumFilename_def)
  obtain s1 where s1: "GetFileContents del_lib example_digests (Close del_lib example_digests (Suc 0)) root_manager (Some ''/d/a'') cks_sys
      = Some (0, render_values cks_values, s1)" "same_env cks_sys s1"
    using GetFileContents_opened [OF cks_file_open(4) cks_file_open(1) [folded fn] del_lib_pread(1) cks_file_open(2)
        cks_values_ok(2), of 0] cks_file_open(3) cks_values_ok(3)
      del_lib_pread(2) [of "m_fs (fst cks_file)" "fh (fst cks_file)" "render_values cks_values"]
    by (auto simp del: Close.simps)
  obtain fs s2 where c: "hadoop_connect del_lib None (acquire CString s1) = (Some fs, s2)" using del_lib_connect by blast
  have env: "g_hdfs_oss s1" "mem s1 = []" "real_path s1 ''/d/a'' = ''/d/a''"
    using s1(2) by (simp_all add: same_env_def cks_sys_def real_path_def)
  have miss: "find_value cks_values (requested_checksum root_manager (asked ''adler32'')) = []"
    by (simp add: find_value_from requested_checksum_def asked_def del: list.map)
  let ?w = "(world s2)\<lparr>mini_files := filter (\<lambda>(q, _). q \<noteq> ''/d/a'') (mini_files (world s2))\<rparr>"
  have "hdfsDelete del_lib (Some fs) (real_path s1 ''/d/a'') 0 0 (world s2) = (0, 0, ?w)"
    by (simp add: env del_lib_def)
  from Get_missing_digest_unlinks [OF s1(1) cks_values_ok(1) miss env(1,2) c this, of text_cks]
  show ?thesis by (auto simp: map_of_eq_None_iff simp del: Close.simps)
qed

theorem Ver_needs_adler32_witness:
  "\<exists>s1. Ver del_lib example_digests text_cks (Close del_lib example_digests 1) root_manager ''/d/a'' (asked ''md5'')
     (cks_sys\<lparr>g_hdfs_oss := False\<rparr>) = Some (- ENOTSUP, s1)"
proof -
  let ?s = "cks_sys\<lparr>g_hdfs_oss := False\<rparr>"
  have "Get del_lib example_digests text_cks (Close del_lib example_digests 1) root_manager ''/d/a'' (cks_default text_cks) ?s
      = Some (- ENOMEM, cks_default text_cks, ?s)"
    by (simp add: Get_def GetFileContents_def)
  from Ver_needs_adler32 [OF _ _ this] show ?thesis by (simp add: text_cks_def)
qed


definition data_file :: "bytes XrdHdfsFile \<times> mini sys" where
  "data_file = snd (Open del_lib example_digests ''/d/a'' O_RDONLY 0 (m_client root_manager) XrdHdfsFile_new
     (acquire FileObj cks_sys))"

lemma data_file_open:
  "Open del_lib example_digests ''/d/a'' O_RDONLY 0 (m_client root_manager) XrdHdfsFile_new
     (acquire FileObj cks_sys) = (0, fst data_file, snd data_file)"
  "mini_data (fh (fst data_file)) (world (snd data_file)) = Some ''hello world''"
  by (simp_all add: data_file_def cks_sys_def cks_world_def mini_world_def open_eval hadoop_connect_def
      hadoop_connect_as_def del_lib_def mini_data_def)

lemma calc_digest_cksum: "calc_digest text_cks ''cksum'' = Some CKSUM"
  by (simp add: calc_digest_def text_cks_def strncasecmp_eq_def strncmp_eq_def tolower_def)

theorem Calc_computes_digest_witness:
  "\<exists>s'. Calc del_lib example_digests text_cks (Close del_lib example_digests 1) root_manager ''/d/a'' (asked ''cksum'') 1 cks_sys
     = Some (0, cks_Set text_cks (asked ''cksum'') (show_nat (unat (posix_cksum ''hello world'')))
         (length (show_nat (unat (posix_cksum ''hello world'')))), s')"
proof -
  have "strncmp_eq cksums_prefix (real_path cks_sys (''/cksums/'' @ ''/d/a'')) 7" "write_contract del_lib"
    "cks_Name (asked ''cksum'') = Some ''cksum''"
    by (simp_all add: real_path_def cks_sys_def strncmp_eq_def cksums_prefix_def mini_write_contract del_lib_def asked_def)
  from Calc_computes_digest [OF running_example this(2,3) calc_digest_cksum _ cks_file_open(4) data_file_open(1)
      del_lib_pread(1) data_file_open(2) _ this(1) refl, of 0 1]
    del_lib_pread(2) [of "m_fs (fst data_file)" "fh (fst data_file)" "''hello world''"]
  show ?thesis by (simp add: digest_text_def del: Close.simps)
qed

end
