(* ===== verification/Hdfs_FileLife.thy ===== *)
theory Hdfs_FileLife
  imports Hdfs_ChecksumManager
begin

text \<open>
  The life of a file object: any sequence of operations on it, from its construction to its destruction,
  and what it has taken and given back at the end.
\<close>


section \<open>Sequences of operations\<close>

text \<open>
  One call on the object.  With \<open>any_use\<close> every call is allowed in every state.  Without it, the use is a careful
  one: an object whose \<^verbatim>\<open>Open\<close> failed is closed before it is opened again, and \<^verbatim>\<open>Close\<close> is called on
  objects that keep no checksums only, as those opened for reading do.
\<close>

inductive file_step :: "'w lib \<Rightarrow> 'md cklib \<Rightarrow> bool \<Rightarrow> 'md XrdHdfsFile \<times> 'w sys \<Rightarrow> 'md XrdHdfsFile \<times> 'w sys \<Rightarrow> bool"
  for L D any_use where
  step_Open: "any_use \<or> fh f \<noteq> None \<or> f_fname f = None \<Longrightarrow> Open L D path mode cm client f s = (r, f', s')
    \<Longrightarrow> file_step L D any_use (f, s) (f', s')"
| step_Read: "Read L offset blen f s = Some (n, bs, f', s') \<Longrightarrow> file_step L D any_use (f, s) (f', s')"
| step_Write: "Write L D buff offset f s = (r, f', s') \<Longrightarrow> file_step L D any_use (f, s) (f', s')"
| step_Fstat: "Fstat L buf f s = (r, f', s') \<Longrightarrow> file_step L D any_use (f, s) (f', s')"
| step_Close: "any_use \<or> m_state f = None \<Longrightarrow> Close L D n f s = Some (r, f', s') \<Longrightarrow> file_step L D any_use (f, s) (f', s')"

inductive_cases file_stepE: "file_step L D any_use (f, s) (f', s')"

inductive file_reach :: "'w lib \<Rightarrow> 'md cklib \<Rightarrow> bool \<Rightarrow> 'w sys \<Rightarrow> 'md XrdHdfsFile \<times> 'w sys \<Rightarrow> bool"
  for L D any_use s0 where
  reach_new: "file_reach L D any_use s0 (XrdHdfsFile_new, s0)"
| reach_step: "file_reach L D any_use s0 (f, s) \<Longrightarrow> file_step L D any_use (f, s) (f', s') \<Longrightarrow> file_reach L D any_use s0 (f', s')"


section \<open>What an object owns\<close>

lemma close_handle_owned:
  assumes "close_handle L f s = (r, f', s')"
  shows "live s' = (live s)(OpenFile := live s OpenFile - held (fh f))" "fh f' = None" "readbuf f' = readbuf f"
    "m_state f' = m_state f" "f_fname f' = f_fname f"
  using assms
  by (auto simp: close_handle_def file_Emsg_def Let_def dest: live_close_file split: prod.splits if_splits option.splits)

lemma close_readbuf_owned:
  assumes "close_readbuf f s = (f', s')"
  shows "live s' = (live s)(ReadBuf := live s ReadBuf - held (readbuf f))" "readbuf f' = None" "fh f' = fh f"
    "m_state f' = m_state f" "f_fname f' = f_fname f"
  using assms by (auto simp: close_readbuf_def split: option.splits)

lemma Close_owned:
  assumes "Close L D n f s = Some (r, f', s')" and "m_state f = None" and "balanced s0 (f, s)"
  shows "balanced s0 (f', s') \<and> live s' = live s0"
proof (cases n)
  case (Suc m)
  obtain r1 f1 s1 where h: "close_handle L f s = (r1, f1, s1)" by (cases "close_handle L f s")
  obtain f2 s2 where b: "close_readbuf f1 s1 = (f2, s2)" by fastforce
  note owned = close_handle_owned [OF h] close_readbuf_owned [OF b]
  have f': "f' = f2\<lparr>f_fname := None\<rparr>" "s' = free_str (f_fname f2) s2"
    using assms(1,2) owned by (auto simp: Suc close_with_def h b)
  have "live s' = live s0"
  proof (rule ext)
    show "live s' x = live s0 x" for x
      using owned assms(2,3) f'(2) by (cases x; cases "f_fname f") (simp_all add: balanced_def free_str_def)
  qed
  with owned assms(2) f'(1) show ?thesis by (simp add: balanced_def)
qed (use assms(1) in simp)

lemma balanced_step: "file_step L D False (f, s) (f', s') \<Longrightarrow> balanced s0 (f, s) \<Longrightarrow> balanced s0 (f', s')"
  by (elim file_stepE)
    (auto dest: balanced_Open balanced_Read balanced_Write balanced_Fstat Close_owned)

lemma balanced_reach: "file_reach L D False s0 (f, s) \<Longrightarrow> balanced s0 (f, s)"
  by (induction "(f, s)" arbitrary: f s rule: file_reach.induct) (auto intro: balanced_new balanced_step)

lemma live_close_snd: "live (snd (close_file L fs h s)) = (live s)(OpenFile := live s OpenFile - 1)"
  using live_close_file [of L fs h s] by (metis prod.collapse)

lemma live_delete:
  "live (XrdHdfsFile_delete L f s) x =
   live s x - (case x of CString \<Rightarrow> held (f_fname f) | OpenFile \<Rightarrow> (if m_fs f \<noteq> None then held (fh f) else 0)
     | ReadBuf \<Rightarrow> held (readbuf f) | CksState \<Rightarrow> held (m_state f) | _ \<Rightarrow> 0)"
  by (cases x) (auto simp: XrdHdfsFile_delete_def Let_def held_def free_str_def hadoop_disconnect_def live_close_snd
      split: option.split)

lemma balanced_delete: "balanced s0 (f, s) \<Longrightarrow> live (XrdHdfsFile_delete L f s) = live s0"
  by (rule ext) (auto simp: live_delete balanced_def split: resource.split)


section \<open>Any use\<close>

text \<open>
  Two of the calls drop what they own.  \<^verbatim>\<open>Open\<close> after an \<^verbatim>\<open>Open\<close> that failed forgets the name that one kept.  Recording
  checksums forgets the name of the superuser and, when the checksum file does not open, the file object that was
  made for it.  \<open>only_leaks s t\<close> says that from \<open>s\<close> to \<open>t\<close> nothing was given back that was not taken since,
  and HDFS handles, checksum states and file information are all given back.
\<close>

definition only_leaks :: "'w sys \<Rightarrow> 'w sys \<Rightarrow> bool" where
  "only_leaks s t \<longleftrightarrow> (\<forall>x. live s x \<le> live t x) \<and> (\<forall>x \<in> {OpenFile, CksState, FileInfo}. live t x = live s x)"

lemma only_leaks_trans [trans]: "only_leaks s t \<Longrightarrow> only_leaks t u \<Longrightarrow> only_leaks s u"
  by (auto simp: only_leaks_def intro: order_trans)

lemma only_leaks_live: "live t = live s \<Longrightarrow> only_leaks s t"
  by (simp add: only_leaks_def)

lemma only_leaks_acquire: "only_leaks s (acquire CString s)" "only_leaks s (acquire FileObj s)"
  by (simp_all add: only_leaks_def)

lemma balanced_only_leaks: "balanced t (f, s) \<Longrightarrow> fh f = None \<Longrightarrow> only_leaks t s"
  unfolding only_leaks_def
proof (intro conjI allI)
  show "live t x \<le> live s x" if "balanced t (f, s)" for x
    using that by (cases x) (auto simp: balanced_def held_def split: option.splits)
qed (simp add: balanced_def)

lemma Open_refused:
  assumes "Open L D path mode cm client f s = (r, f', s')" "fh f = None" "r \<noteq> 0"
  shows "fh f' = None"
proof -
  obtain p s1 where p: "GetRealPath path s = (p, s1)" by fastforce
  obtain f1 s2 where rb: "open_readbuf (f\<lparr>f_fname := p\<rparr>) s1 = (f1, s2)" by fastforce
  obtain fs s3 where c: "hadoop_connect L (Some client) s2 = (fs, s3)" by fastforce
  obtain h s4 where o: "open_file L fs p (open_flags mode) s3 = (h, s4)" by fastforce
  obtain e s5 where e: "open_error L fs p s4 = (e, s5)" by fastforce
  show ?thesis
    using assms(1) [unfolded Open_steps [OF assms(2) p rb c o e]] live_open_readbuf(2) [OF rb] assms(2,3)
    by (auto split: option.splits if_splits)
qed

lemma balanced_write_loop:
  assumes "write_loop L D result offset f s = Some (r, f', s')" "balanced t (f, s)"
  shows "balanced t (f', s')"
proof -
  have "balanced t (f, s) \<longrightarrow> balanced t (snd (r, f', s'))"
  proof (rule write_loop.raw_induct [OF _ assms(1),
        where P = "\<lambda>L D result offset f s y. balanced t (f, s) \<longrightarrow> balanced t (snd y)"], goal_cases)
    case (1 loop L D result offset f s y)
    obtain r f1 s1 where w: "Write L D (drop (nat offset) result) offset f s = (r, f1, s1)" by (metis prod.exhaust)
    have "balanced t (f, s) \<longrightarrow> balanced t (f1, s1)" using balanced_Write [OF _ w] by blast
    with 1 show ?case by (cases y) (fastforce simp: w split: if_splits)
  qed
  with assms(2) show ?thesis by simp
qed

text \<open>\<^verbatim>\<open>Close\<close> and the recording of checksums, by induction on the nesting.\<close>

lemma Set_state_leaks:
  assumes "Set_state L D close mgr pfn st s = Some (r, s')"
    and "\<And>f s1 q f' s1' t. close f s1 = Some (q, f', s1') \<Longrightarrow> balanced t (f, s1) \<Longrightarrow> only_leaks t s1' \<and> balanced s1' (f', s1')"
  shows "only_leaks s s'"
proof (cases "g_hdfs_oss s")
  case True
  let ?t = "acquire FileObj s"
  obtain rc f1 s1 where o: "Open L D (GetChecksumFilename pfn) O_WRONLY 0 (m_client mgr) XrdHdfsFile_new ?t = (rc, f1, s1)"
    by (metis prod.exhaust)
  have b1: "balanced ?t (f1, s1)"
    by (rule balanced_Open [OF balanced_new _ o]) (simp add: XrdHdfsFile_new_def)
  show ?thesis
  proof (cases "rc = 0")
    case False
    with o True assms(1) have "s' = s1" by (simp add: Set_state_def SetMultiple_def newFile_def)
    with balanced_only_leaks [OF b1 Open_refused [OF o new_fields(1) False]] only_leaks_acquire(2) [of s]
    show ?thesis by (blast intro: only_leaks_trans)
  next
    case rc: True
    with o True assms(1) obtain rv f2 s2 q f3 s3 where
      w: "write_loop L D (render_values (state_values st)) 0 f1 s1 = Some (rv, f2, s2)" "close f2 s2 = Some (q, f3, s3)"
      and s': "s' = delete_file L f3 s3"
      by (auto simp: Set_state_def SetMultiple_def newFile_def bind_eq_Some_conv)
    from assms(2) [OF w(2) balanced_write_loop [OF w(1) b1]]
    have l: "only_leaks ?t s3" "balanced s3 (f3, s3)" by blast+
    have "live s' = (live s3)(FileObj := live s3 FileObj - 1)"
      by (simp add: s' delete_file_def balanced_delete [OF l(2)])
    with l(1) show ?thesis by (auto simp: only_leaks_def split: if_splits)
  qed
qed (use assms(1) in \<open>auto simp: Set_state_def SetMultiple_def only_leaks_def\<close>)

lemma Close_leaks:
  "Close L D n f s = Some (r, f', s') \<Longrightarrow> balanced t (f, s) \<Longrightarrow> only_leaks t s' \<and> balanced s' (f', s')"
proof (induction n arbitrary: f s r f' s' t)
  case (Suc n)
  obtain r1 f1 s1 where h: "close_handle L f s = (r1, f1, s1)" by (cases "close_handle L f s")
  obtain f2 s2 where b: "close_readbuf f1 s1 = (f2, s2)" by fastforce
  note owned = close_handle_owned [OF h] close_readbuf_owned [OF b]
  obtain s3 where s3: "only_leaks s2 s3" "f' = f2\<lparr>m_state := None, f_fname := None\<rparr>"
    "s' = free_str (f_fname f) (if m_state f = None then s3 else release CksState s3)"
  proof (cases "m_state f")
    case None
    with Suc.prems(1) owned have "f' = f2\<lparr>m_state := None, f_fname := None\<rparr>" "s' = free_str (f_fname f) s2"
      by (auto simp: close_with_def h b)
    with None that [of s2] show ?thesis by (simp add: only_leaks_live)
  next
    case (Some st)
    obtain mgr s4 where m: "ChecksumManager_new s2 = (mgr, s4)" by fastforce
    then have s4: "only_leaks s2 s4"
      by (auto simp: ChecksumManager_new_def strdup_def alloc_def only_leaks_def split: prod.splits list.splits bool.splits)
    from Suc.prems(1) [unfolded Close.simps close_with_def] owned Some m obtain s3 where "f' = f2\<lparr>m_state := None, f_fname := None\<rparr>"
      "s' = free_str (f_fname f) (release CksState s3)"
      "s3 = s2 \<or> (\<exists>q. Set_state L D (Close L D n) mgr (f_fname f) (Finalize D st) s4 = Some (q, s3))"
      by (cases "Set_state L D (Close L D n) mgr (f_fname f) (Finalize D st) s4")
        (auto simp: h b split: if_splits)
    moreover have "only_leaks s4 s3" if "Set_state L D (Close L D n) mgr (f_fname f) (Finalize D st) s4 = Some (q, s3)" for q s3
      by (rule Set_state_leaks [OF that Suc.IH])
    ultimately show ?thesis using Some that [of s3] only_leaks_trans [OF s4] by (auto simp: only_leaks_live)
  qed
  have live': "live s' x = live s3 x - (case x of CString \<Rightarrow> held (f_fname f) | CksState \<Rightarrow> held (m_state f) | _ \<Rightarrow> 0)" for x
    by (cases x; cases "f_fname f"; cases "m_state f") (simp_all add: s3(3) free_str_def)
  have s2: "live s2 x = live t x + (case x of CString \<Rightarrow> held (f_fname f) | CksState \<Rightarrow> held (m_state f) | _ \<Rightarrow> 0)" for x
    using owned(1,6,3) Suc.prems(2) by (cases x) (simp_all add: balanced_def)
  have "live t x \<le> live s' x" for x
  proof -
    have "live s2 x \<le> live s3 x" using s3(1) by (simp add: only_leaks_def)
    then show ?thesis unfolding live' s2 by simp
  qed
  moreover have "\<forall>x \<in> {OpenFile, CksState, FileInfo}. live s' x = live t x"
    using s3(1) by (auto simp: live' only_leaks_def s2)
  moreover have "balanced s' (f', s')" using owned s3(2) by (simp add: balanced_def)
  ultimately show ?case by (simp add: only_leaks_def)
qed simp

lemma Open_forgets: "fh f = None \<Longrightarrow> Open L D path mode cm client f s = Open L D path mode cm client (f\<lparr>f_fname := None\<rparr>) s"
  by (simp add: Open_def)

lemma leaky_Open:
  assumes "Open L D path mode cm client f s = (r, f', s')" "balanced t (f, s)"
  shows "\<exists>t'. only_leaks t t' \<and> balanced t' (f', s')"
proof (cases "fh f \<noteq> None \<or> f_fname f = None")
  case True
  from balanced_Open [OF assms(2) this assms(1)] only_leaks_live [of t t] show ?thesis by blast
next
  case False
  then have "balanced (acquire CString t) (f\<lparr>f_fname := None\<rparr>, s)" using assms(2) by (auto simp: balanced_def)
  from balanced_Open [OF this _ assms(1) [unfolded Open_forgets [of f, OF False [simplified, THEN conjunct1]]]]
  show ?thesis using only_leaks_acquire(1) [of t] by auto
qed

lemma leaky_step: "file_step L D any_use (f, s) (f', s') \<Longrightarrow> balanced t (f, s) \<Longrightarrow> \<exists>t'. only_leaks t t' \<and> balanced t' (f', s')"
  by (elim file_stepE)
    (blast dest: leaky_Open balanced_Read balanced_Write balanced_Fstat Close_leaks intro: only_leaks_live)+

lemma leaky_reach: "file_reach L D any_use s0 (f, s) \<Longrightarrow> \<exists>t. only_leaks s0 t \<and> balanced t (f, s)"
proof (induction "(f, s)" arbitrary: f s rule: file_reach.induct)
  case reach_new
  show ?case using balanced_new only_leaks_live by blast
next
  case (reach_step f s f' s')
  then obtain t where "only_leaks s0 t" "balanced t (f, s)" by blast
  with leaky_step [OF reach_step(3)] show ?case by (blast intro: only_leaks_trans)
qed

text \<open>
  C21. After any sequence of opens, reads, writes, status requests and closes, destroying a file object gives nothing
  back that was not taken, and gives back every HDFS handle, checksum state and file information taken since it was
  made, also by the checksum files that were written on the way.  Names, buffers and file objects may be lost:
  by an \<^verbatim>\<open>Open\<close> after one that failed, and by closing a file that keeps checksums.  Without these two (\<open>any_use\<close> is
  false) nothing is lost: destroying the object gives back everything, and so does closing it.
\<close>

theorem file_object_resources:
  assumes "file_reach L D any_use s0 (f, s)"
  shows "(\<forall>x. live s0 x \<le> live (XrdHdfsFile_delete L f s) x) \<and>
    (\<forall>x \<in> {OpenFile, CksState, FileInfo}. live (XrdHdfsFile_delete L f s) x = live s0 x) \<and>
    (\<not> any_use \<longrightarrow> live (XrdHdfsFile_delete L f s) = live s0 \<and>
       (m_state f = None \<and> Close L D n f s = Some (r, f', s') \<longrightarrow> live s' = live s0))"
proof -
  obtain t where t: "only_leaks s0 t" "balanced t (f, s)" using leaky_reach [OF assms] by blast
  have "balanced s0 (f, s)" if "\<not> any_use" using assms that by (intro balanced_reach [of L D]) simp
  with balanced_delete Close_owned
  have "live (XrdHdfsFile_delete L f s) = live s0 \<and>
      (m_state f = None \<and> Close L D n f s = Some (r, f', s') \<longrightarrow> live s' = live s0)" if "\<not> any_use"
    using that by blast
  with t(1) balanced_delete [OF t(2), of L] show ?thesis by (simp add: only_leaks_def)
qed

theorem file_object_resources_witness:
  "live (XrdHdfsFile_delete mini_lib (fst alice_write) (snd alice_write)) = live mini_sys"
proof -
  have "file_step mini_lib example_digests False (XrdHdfsFile_new, mini_sys) (fst alice_write, snd alice_write)"
    by (rule step_Open [OF _ alice_write_open(1)]) (simp add: XrdHdfsFile_new_def)
  then have "file_reach mini_lib example_digests False mini_sys (fst alice_write, snd alice_write)"
    by (rule reach_step [OF reach_new])
  from file_object_resources [OF this] show ?thesis by simp
qed

end
