(* ===== verification/Hdfs_Config.thy ===== *)
theory Hdfs_Config
  imports Hdfs_Memory
begin

text \<open>
  Start-up of the storage system: \<^verbatim>\<open>XrdHdfsSys::Init\<close> and \<^verbatim>\<open>XrdOssGetStorageSystem\<close> of \<^verbatim>\<open>src/src/XrdHdfs.cc\<close>
  and the directives of \<^verbatim>\<open>src/src/XrdHdfsConfig.cc\<close>, which choose the Name2Name plugin.

  The configuration stream (\<^verbatim>\<open>XrdOucStream\<close>), \<^verbatim>\<open>open\<close>, the plugin loader (\<^verbatim>\<open>XrdSysPlugin\<close>) and the value of
  \<^verbatim>\<open>XrdSysError::Emsg\<close> are the parameter \<open>K\<close>.  A stream is a value of the type \<open>'c\<close>, which the calls
  take and give back.  A plain \<^verbatim>\<open>new\<close> does not return null, so the test of \<^verbatim>\<open>ConfigN2N\<close> after it always
  passes.  What the code logs or echoes is left out.
\<close>


section \<open>The parameter\<close>

text \<open>The entry point of a Name2Name library: configuration file and parameters to the translation object.\<close>

type_synonym 'w n2n_ep = "cstr \<Rightarrow> string \<Rightarrow> ('w, n2n option) hcall"

record ('w, 'c) cfg_lib =
  open_rdonly :: "string \<Rightarrow> ('w, int) hcall"
  Attach :: "int \<Rightarrow> ('w, 'c) hcall"
  GetMyFirstWord :: "'c \<Rightarrow> cstr \<times> 'c"
  GetWord :: "'c \<Rightarrow> cstr \<times> 'c"
  GetRest :: "'c \<Rightarrow> nat \<Rightarrow> bool \<times> bytes \<times> 'c"
  LastError :: "'c \<Rightarrow> int"
  CloseStream :: "'c \<Rightarrow> ('w, unit) hcall"
  getPlugin :: "cstr \<Rightarrow> string \<Rightarrow> ('w, 'w n2n_ep option) hcall"
  eDest_Emsg :: "int \<Rightarrow> int"


section \<open>Directives\<close>

text \<open>\<^verbatim>\<open>xnml\<close>: the directive \<open>namelib path [parms]\<close>.\<close>

definition xnml :: "('w, 'c) cfg_lib \<Rightarrow> 'c \<Rightarrow> 'w sys \<Rightarrow> int \<times> 'c \<times> 'w sys" where
  "xnml K c s =
     (case GetWord K c of
        (None, c1) \<Rightarrow> (1, c1, s)
      | (Some val, c1) \<Rightarrow>
          if val = [] then (1, c1, s)
          else (case strdup val (free_str (N2N_Lib s) s) of
            (lib, s1) \<Rightarrow>
              let s2 = s1\<lparr>N2N_Lib := lib\<rparr>
              in case GetRest K c1 1024 of
                   (fits, parms, c2) \<Rightarrow>
                     if \<not> fits then (1, c2, s2)
                     else let s3 = free_str (N2N_Parms s2) s2
                          in if c_str parms \<noteq> []
                             then (case strdup (c_str parms) s3 of (p, s4) \<Rightarrow> (0, c2, s4\<lparr>N2N_Parms := p\<rparr>))
                             else (0, c2, s3\<lparr>N2N_Parms := None\<rparr>)))"

text \<open>\<^verbatim>\<open>ConfigXeq\<close>: the directive's name without its prefix; unknown ones are ignored.\<close>

definition ConfigXeq :: "('w, 'c) cfg_lib \<Rightarrow> string \<Rightarrow> 'c \<Rightarrow> 'w sys \<Rightarrow> int \<times> 'c \<times> 'w sys" where
  "ConfigXeq K var c s = (if var = ''namelib'' then xnml K c s else (0, c, s))"

text \<open>The loop of \<^verbatim>\<open>ConfigProc\<close>; it ends only when the stream does.\<close>

partial_function (option) config_loop ::
  "('w, 'c) cfg_lib \<Rightarrow> int \<Rightarrow> 'c \<Rightarrow> 'w sys \<Rightarrow> (int \<times> 'c \<times> 'w sys) option" where
  "config_loop K NoGo c s =
     (case GetMyFirstWord K c of
        (None, c1) \<Rightarrow> Some (NoGo, c1, s)
      | (Some var, c1) \<Rightarrow>
          if strncmp_eq var ''oss.'' 4
          then (case ConfigXeq K (drop 4 var) c1 s of
                  (r, c2, s2) \<Rightarrow> config_loop K (if r \<noteq> 0 then 1 else NoGo) c2 s2)
          else config_loop K NoGo c1 s)"

definition ConfigN2N :: "('w, 'c) cfg_lib \<Rightarrow> 'w sys \<Rightarrow> int \<times> 'w sys" where
  "ConfigN2N K s =
     (case run (getPlugin K (N2N_Lib s) ''XrdOucgetName2Name'') s of
        (None, s1) \<Rightarrow> (1, s1)
      | (Some ep, s1) \<Rightarrow>
          (case run (ep (ConfigFN s1) (case N2N_Parms s1 of None \<Rightarrow> [] | Some p \<Rightarrow> p)) s1 of
             (obj, s2) \<Rightarrow> (if obj = None then 1 else 0, s2\<lparr>the_N2N := obj\<rparr>)))"

text \<open>\<^verbatim>\<open>ConfigProc\<close> after its loop.\<close>

definition config_finish :: "('w, 'c) cfg_lib \<Rightarrow> int \<Rightarrow> 'c \<Rightarrow> 'w sys \<Rightarrow> int \<times> 'w sys" where
  "config_finish K NoGo c s =
     (case (if N2N_Lib s \<noteq> None
            then (case ConfigN2N K s of (r, s1) \<Rightarrow> (if r \<noteq> 0 then 1 else NoGo, s1))
            else (NoGo, s)) of
        (NoGo, s1) \<Rightarrow>
          let retc = LastError K c;
              NoGo = (if retc \<noteq> 0 then eDest_Emsg K retc else NoGo)
          in case run (CloseStream K c) s1 of (_, s2) \<Rightarrow> (NoGo, s2))"

definition ConfigProc :: "('w, 'c) cfg_lib \<Rightarrow> cstr \<Rightarrow> 'w sys \<Rightarrow> (int \<times> 'w sys) option" where
  "ConfigProc K Cfn s =
     (case Cfn of
        None \<Rightarrow> Some (1, s)
      | Some cfn \<Rightarrow>
          if cfn = [] then Some (1, s)
          else (case run (open_rdonly K cfn) s of
            (cfgFD, s1) \<Rightarrow>
              if cfgFD < 0 then Some (1, s1)
              else (case run (Attach K cfgFD) (s1\<lparr>ConfigFN := Some cfn\<rparr>) of
                (c, s2) \<Rightarrow> Option.bind (config_loop K 0 c s2) (\<lambda>(NoGo, c, s3). Some (config_finish K NoGo c s3)))))"

definition Configure :: "('w, 'c) cfg_lib \<Rightarrow> cstr \<Rightarrow> 'w sys \<Rightarrow> (int \<times> 'w sys) option" where
  "Configure K cfn s = ConfigProc K cfn (s\<lparr>N2N_Lib := None, the_N2N := None\<rparr>)"


section \<open>Initialisation\<close>

definition Init :: "('w, 'c) cfg_lib \<Rightarrow> cstr \<Rightarrow> 'w sys \<Rightarrow> (int \<times> 'w sys) option" where
  "Init K configfn s = Configure K configfn (s\<lparr>N2N_Lib := None, the_N2N := None\<rparr>)"

text \<open>
  \<^verbatim>\<open>XrdOssGetStorageSystem\<close> of the module proper: the returned pointer is the file system object or null,
  here whether it is not null, and the global \<^verbatim>\<open>g_hdfs_oss\<close> is set to it.
\<close>

definition XrdOssGetStorageSystem :: "('w, 'c) cfg_lib \<Rightarrow> cstr \<Rightarrow> 'w sys \<Rightarrow> (bool \<times> 'w sys) option" where
  "XrdOssGetStorageSystem K config_fn s =
     Option.bind (Init K config_fn s) (\<lambda>(NoGo, s1). Some (NoGo = 0, s1\<lparr>g_hdfs_oss := (NoGo = 0)\<rparr>))"

definition getVersion :: string where
  "getVersion = ''@devel@''"

text \<open>\<^verbatim>\<open>XRDOSS_HASNAIO\<close> is a constant of the server; the features are a parameter's value.\<close>

definition Features :: "64 word \<Rightarrow> 64 word" where
  "Features HASNAIO = HASNAIO"

definition getStats :: int where
  "getStats = 0"


section \<open>What the configuration file says\<close>

text \<open>
  A configuration file as its lines, each a first word and the words after it.  A stream shows
  the words left on the current line and the lines after it.
\<close>

type_synonym cfg_line = "string \<times> string list"

fun unwords :: "string list \<Rightarrow> string" where
  "unwords [] = []"
| "unwords [w] = w"
| "unwords (w # ws) = w @ CHR '' '' # unwords ws"

definition stream_contract :: "('w, 'c) cfg_lib \<Rightarrow> ('c \<Rightarrow> string list \<times> cfg_line list) \<Rightarrow> bool" where
  "stream_contract K view \<longleftrightarrow>
     (\<forall>c ws. view c = (ws, []) \<longrightarrow> fst (GetMyFirstWord K c) = None) \<and>
     (\<forall>c ws v vs ls. view c = (ws, (v, vs) # ls) \<longrightarrow>
        (\<exists>c'. GetMyFirstWord K c = (Some v, c') \<and> view c' = (vs, ls))) \<and>
     (\<forall>c ls. view c = ([], ls) \<longrightarrow> (\<exists>c'. GetWord K c = (None, c') \<and> view c' = ([], ls))) \<and>
     (\<forall>c w ws ls. view c = (w # ws, ls) \<longrightarrow> (\<exists>c'. GetWord K c = (Some w, c') \<and> view c' = (ws, ls))) \<and>
     (\<forall>c ws ls n. view c = (ws, ls) \<longrightarrow>
        (\<exists>bs c' ws'. GetRest K c n = (length (unwords ws) < n, bs, c') \<and> view c' = (ws', ls) \<and>
           (length (unwords ws) < n \<longrightarrow> c_str bs = unwords ws)))"

lemma stream_first:
  "stream_contract K view \<Longrightarrow> view c = (ws, []) \<Longrightarrow> fst (GetMyFirstWord K c) = None"
  "stream_contract K view \<Longrightarrow> view c = (ws, (v, vs) # ls) \<Longrightarrow>
   \<exists>c'. GetMyFirstWord K c = (Some v, c') \<and> view c' = (vs, ls)"
  by (simp_all add: stream_contract_def)

lemma stream_word:
  "stream_contract K view \<Longrightarrow> view c = ([], ls) \<Longrightarrow> \<exists>c'. GetWord K c = (None, c') \<and> view c' = ([], ls)"
  "stream_contract K view \<Longrightarrow> view c = (w # ws, ls) \<Longrightarrow> \<exists>c'. GetWord K c = (Some w, c') \<and> view c' = (ws, ls)"
  by (simp_all add: stream_contract_def)

lemma stream_rest:
  "stream_contract K view \<Longrightarrow> view c = (ws, ls) \<Longrightarrow>
   \<exists>bs c' ws'. GetRest K c n = (length (unwords ws) < n, bs, c') \<and> view c' = (ws', ls) \<and>
     (length (unwords ws) < n \<longrightarrow> c_str bs = unwords ws)"
  unfolding stream_contract_def by blast

definition namelibs :: "cfg_line list \<Rightarrow> string list list" where
  "namelibs ls = map snd (filter (\<lambda>l. fst l = ''oss.namelib'') ls)"

definition namelib_ok :: "string list \<Rightarrow> bool" where
  "namelib_ok ws \<longleftrightarrow> ws \<noteq> [] \<and> hd ws \<noteq> [] \<and> length (unwords (tl ws)) < 1024"

definition parms_of :: "string list \<Rightarrow> cstr" where
  "parms_of ws = (if unwords (tl ws) = [] then None else Some (unwords (tl ws)))"


section \<open>Reading the directives\<close>

text \<open>What processing a directive leaves alone.\<close>

definition cfg_frame :: "'w sys \<Rightarrow> 'w sys \<Rightarrow> bool" where
  "cfg_frame s s' \<longleftrightarrow> mem s' = mem s \<and> ConfigFN s' = ConfigFN s \<and> the_N2N s' = the_N2N s \<and>
     world s' = world s \<and> errno s' = errno s"

lemma cfg_frame_refl [simp]: "cfg_frame s s"
  by (simp add: cfg_frame_def)

lemma cfg_frame_trans: "cfg_frame s s1 \<Longrightarrow> cfg_frame s1 s2 \<Longrightarrow> cfg_frame s s2"
  by (simp add: cfg_frame_def)

lemma strdup_mem: "mem s = [] \<Longrightarrow> strdup t s = (Some t, acquire CString s)"
  by (simp add: strdup_def alloc_def)

lemma free_str_mem [simp]: "mem (free_str p s) = mem s"
  by (cases p) (simp_all add: free_str_def)

lemmas xnml_simps = xnml_def strdup_mem free_str_def acquire_def release_def parms_of_def

lemma xnml_directive:
  assumes "stream_contract K view" and "view c = (ws, ls)" and "mem s = []"
  shows "\<exists>c' ws' s'. xnml K c s = (if namelib_ok ws then 0 else 1, c', s') \<and> view c' = (ws', ls) \<and> cfg_frame s s' \<and>
    (namelib_ok ws \<longrightarrow> N2N_Lib s' = Some (hd ws) \<and> N2N_Parms s' = parms_of ws)"
proof (cases ws)
  case Nil
  with stream_word(1) [OF assms(1)] assms(2) obtain c' where "GetWord K c = (None, c')" "view c' = ([], ls)"
    by blast
  with Nil show ?thesis by (simp add: xnml_def namelib_ok_def)
next
  case (Cons w ws')
  with stream_word(2) [OF assms(1)] assms(2) obtain c1 where word: "GetWord K c = (Some w, c1)" "view c1 = (ws', ls)"
    by blast
  from stream_rest [OF assms(1) word(2), of 1024] obtain bs c2 ws2 where rest: "GetRest K c1 1024 = (length (unwords ws') < 1024, bs, c2)"
    "view c2 = (ws2, ls)" "length (unwords ws') < 1024 \<longrightarrow> c_str bs = unwords ws'"
    by blast
  from word rest Cons assms(3) show ?thesis
    by (cases "N2N_Lib s"; cases "N2N_Parms s")
      (auto simp: xnml_simps Let_def namelib_ok_def cfg_frame_def)
qed

lemma oss_prefix: "strncmp_eq var ''oss.'' 4 \<and> drop 4 var = ''namelib'' \<longleftrightarrow> var = ''oss.namelib''"
proof
  assume a: "strncmp_eq var ''oss.'' 4 \<and> drop 4 var = ''namelib''"
  then have "4 \<le> length var" by (metis drop_all list.distinct(1) nat_le_linear)
  with a have "take 4 var = ''oss.''" by (simp add: strncmp_eq_def)
  with a show "var = ''oss.namelib''" by (metis append_take_drop_id append_Cons append_Nil)
qed (simp add: strncmp_eq_def)

text \<open>The setting that the lines \<open>ls\<close> leave, when all of them are well formed.\<close>

definition chosen :: "cfg_line list \<Rightarrow> 'w sys \<Rightarrow> 'w sys \<Rightarrow> bool" where
  "chosen ls s s' \<longleftrightarrow> (list_all namelib_ok (namelibs ls) \<longrightarrow>
         N2N_Lib s' = (if namelibs ls = [] then N2N_Lib s else Some (hd (last (namelibs ls)))) \<and>
         N2N_Parms s' = (if namelibs ls = [] then N2N_Parms s else parms_of (last (namelibs ls))))"

lemma chosen_Nil: "chosen [] s s"
  by (simp add: chosen_def namelibs_def)

lemma namelibs_Cons: "namelibs (l # ls) = (if fst l = ''oss.namelib'' then snd l # namelibs ls else namelibs ls)"
  by (simp add: namelibs_def)

lemma chosen_other: "fst l \<noteq> ''oss.namelib'' \<Longrightarrow> chosen (l # ls) s s' = chosen ls s s'"
  by (simp add: chosen_def namelibs_Cons)

lemma chosen_namelib:
  assumes "fst l = ''oss.namelib''" and "chosen ls s2 s'"
    and "namelib_ok (snd l) \<longrightarrow> N2N_Lib s2 = Some (hd (snd l)) \<and> N2N_Parms s2 = parms_of (snd l)"
  shows "chosen (l # ls) s s'"
  using assms by (auto simp: chosen_def namelibs_Cons)

lemma config_loop_reads:
  assumes "stream_contract K view" and "view c = (ws, ls)" and "mem s = []"
  shows "\<exists>c' s'. config_loop K NoGo c s = Some (if list_all namelib_ok (namelibs ls) then NoGo else 1, c', s') \<and> cfg_frame s s' \<and>
    chosen ls s s'"
  using assms(2,3)
proof (induction ls arbitrary: c ws s NoGo)
  case Nil
  then have "fst (GetMyFirstWord K c) = None" using stream_first(1) [OF assms(1)] by blast
  then show ?case
    by (subst config_loop.simps) (auto simp: namelibs_def chosen_Nil split: prod.splits)
next
  case (Cons l ls)
  obtain v vs where l: "l = (v, vs)" by (cases l)
  with stream_first(2) [OF assms(1)] Cons.prems(1) obtain c1
    where first: "GetMyFirstWord K c = (Some v, c1)" "view c1 = (vs, ls)"
    by blast
  show ?case
  proof (cases "v = ''oss.namelib''")
    case True
    obtain c2 ws2 s2 where x: "xnml K c1 s = (if namelib_ok vs then 0 else 1, c2, s2)" "view c2 = (ws2, ls)"
      "cfg_frame s s2" "namelib_ok vs \<longrightarrow> N2N_Lib s2 = Some (hd vs) \<and> N2N_Parms s2 = parms_of vs"
      using xnml_directive [OF assms(1) first(2) Cons.prems(2)] by blast
    then have "mem s2 = []" using Cons.prems(2) by (simp add: cfg_frame_def)
    from Cons.IH [OF x(2) this, of "if namelib_ok vs then NoGo else 1"] obtain c' s' where
      loop: "config_loop K (if namelib_ok vs then NoGo else 1) c2 s2 =
        Some (if list_all namelib_ok (namelibs ls) then if namelib_ok vs then NoGo else 1 else 1, c', s')"
      "cfg_frame s2 s'" "chosen ls s2 s'"
      by blast
    have "config_loop K NoGo c s = Some (if list_all namelib_ok (namelibs (l # ls)) then NoGo else 1, c', s')"
      using first(1) x(1) loop(1) True l
      by (subst config_loop.simps) (simp add: ConfigXeq_def strncmp_eq_def namelibs_Cons split: if_splits)
    with cfg_frame_trans [OF x(3) loop(2)] chosen_namelib [of l, OF _ loop(3)] x(4) True l show ?thesis
      by auto
  next
    case False
    with first(1) oss_prefix [of v] have "config_loop K NoGo c s = config_loop K NoGo c1 s"
      by (subst config_loop.simps) (auto simp: ConfigXeq_def)
    with Cons.IH [OF first(2) Cons.prems(2), of NoGo] False l show ?thesis
      by (simp add: chosen_other namelibs_Cons)
  qed
qed


section \<open>Properties\<close>

text \<open>The loader finds the library \<open>lib\<close>, whose entry point answers \<open>T\<close> for these parameters.\<close>

definition loads :: "('w, 'c) cfg_lib \<Rightarrow> string \<Rightarrow> string \<Rightarrow> string \<Rightarrow> n2n option \<Rightarrow> bool" where
  "loads K lib cfn parms T \<longleftrightarrow>
     (\<forall>e w. \<exists>ep e' w'. getPlugin K (Some lib) ''XrdOucgetName2Name'' e w = (Some ep, e', w') \<and>
        (\<forall>e w. fst (ep (Some cfn) parms e w) = T))"

lemma ConfigN2N_loads:
  assumes "loads K lib cfn parms T" and "N2N_Lib s = Some lib" and "ConfigFN s = Some cfn"
    and "(case N2N_Parms s of None \<Rightarrow> [] | Some p \<Rightarrow> p) = parms"
  shows "\<exists>s'. ConfigN2N K s = (if T = None then 1 else 0, s') \<and> the_N2N s' = T"
proof -
  obtain ep e' w' where get: "getPlugin K (Some lib) ''XrdOucgetName2Name'' (errno s) (world s) = (Some ep, e', w')"
    and ep: "\<forall>e w. fst (ep (Some cfn) parms e w) = T"
    using assms(1) unfolding loads_def by blast
  obtain e'' w'' where "ep (Some cfn) parms e' w' = (T, e'', w'')"
    using ep by (metis prod.collapse)
  with get assms show ?thesis by (auto simp: ConfigN2N_def run_def)
qed

lemma parms_of_text: "(case parms_of ws of None \<Rightarrow> [] | Some p \<Rightarrow> p) = unwords (tl ws)"
  by (simp add: parms_of_def)

definition attached :: "('w, 'c) cfg_lib \<Rightarrow> ('c \<Rightarrow> string list \<times> cfg_line list) \<Rightarrow> string \<Rightarrow> cfg_line list \<Rightarrow> 'w sys \<Rightarrow> bool" where
  "attached K view cfn ls s \<longleftrightarrow>
     (\<exists>fd e w. open_rdonly K cfn (errno s) (world s) = (fd, e, w) \<and> 0 \<le> fd \<and>
        (\<exists>c e' w'. Attach K fd e w = (c, e', w') \<and> view c = ([], ls))) \<and> (\<forall>c. LastError K c = 0)"

lemma Init_reads:
  assumes "stream_contract K view" and "attached K view cfn ls s" and "cfn \<noteq> []" and "mem s = []"
  shows "\<exists>c s0 s3. Init K (Some cfn) s =
      Some (config_finish K (if list_all namelib_ok (namelibs ls) then 0 else 1) c s3) \<and>
    ConfigFN s3 = Some cfn \<and> the_N2N s3 = None \<and> N2N_Lib s0 = None \<and> chosen ls s0 s3"
proof -
  obtain fd e w c0 e' w' where o: "open_rdonly K cfn (errno s) (world s) = (fd, e, w)" "0 \<le> fd"
    "Attach K fd e w = (c0, e', w')" "view c0 = ([], ls)"
    using assms(2) unfolding attached_def by blast
  let ?s = "s\<lparr>N2N_Lib := None, the_N2N := None, ConfigFN := Some cfn, errno := e', world := w'\<rparr>"
  have "mem ?s = []" using assms(4) by simp
  from config_loop_reads [OF assms(1) o(4) this, of 0] obtain c s3
    where l: "config_loop K 0 c0 ?s = Some (if list_all namelib_ok (namelibs ls) then 0 else 1, c, s3)"
      "cfg_frame ?s s3" "chosen ls ?s s3"
    by blast
  have "Init K (Some cfn) s = Some (config_finish K (if list_all namelib_ok (namelibs ls) then 0 else 1) c s3)"
    using o(1-3) l(1) assms(3) by (simp add: Init_def Configure_def ConfigProc_def run_def)
  moreover have "ConfigFN s3 = Some cfn" "the_N2N s3 = None" "N2N_Lib ?s = None"
    using l(2) by (simp_all add: cfg_frame_def)
  ultimately show ?thesis using l(3) by blast
qed

lemma config_finish_result:
  assumes "LastError K c = 0"
  shows "\<exists>NoGo' s'. config_finish K NoGo c s = (NoGo', s') \<and>
    NoGo' = (if N2N_Lib s \<noteq> None \<and> fst (ConfigN2N K s) \<noteq> 0 then 1 else NoGo) \<and>
    the_N2N s' = (if N2N_Lib s \<noteq> None then the_N2N (snd (ConfigN2N K s)) else the_N2N s)"
  using assms by (cases "ConfigN2N K s") (simp add: config_finish_def run_def split: prod.splits)

text \<open>
  C22. Initialisation with a readable configuration file always returns, and the last \<^verbatim>\<open>oss.namelib\<close> line of the
  file decides: without such a line it succeeds and paths are used as they are; when all such lines
  are well formed (a path, and parameters of fewer than 1024 characters) it asks the library of the
  last one, with its parameters, for the translation, installs what it gives, and succeeds exactly when
  that is not null; an ill-formed line, whatever follows it, makes it fail.
\<close>

theorem Init_uses_last_namelib:
  assumes "stream_contract K view" and "attached K view cfn ls s" and "cfn \<noteq> []" and "mem s = []"
    and "\<And>ws. ws \<in> set (namelibs ls) \<Longrightarrow> namelib_ok ws \<Longrightarrow> loads K (hd ws) cfn (unwords (tl ws)) (T ws)"
  shows "\<exists>NoGo s'. Init K (Some cfn) s = Some (NoGo, s') \<and>
    (list_all namelib_ok (namelibs ls) \<longrightarrow>
       the_N2N s' = (if namelibs ls = [] then None else T (last (namelibs ls))) \<and>
       (NoGo = 0 \<longleftrightarrow> namelibs ls = [] \<or> T (last (namelibs ls)) \<noteq> None)) \<and>
    (\<not> list_all namelib_ok (namelibs ls) \<longrightarrow> NoGo \<noteq> 0)"
proof -
  obtain c s0 s3 where init: "Init K (Some cfn) s =
      Some (config_finish K (if list_all namelib_ok (namelibs ls) then 0 else 1) c s3)"
    and s3: "ConfigFN s3 = Some cfn" "the_N2N s3 = None" "N2N_Lib s0 = None" "chosen ls s0 s3"
    using Init_reads [OF assms(1-4)] by blast
  have noerr: "LastError K c = 0" using assms(2) by (simp add: attached_def)
  show ?thesis
  proof (cases "list_all namelib_ok (namelibs ls) \<and> namelibs ls \<noteq> []")
    case True
    let ?ws = "last (namelibs ls)"
    from True have last: "?ws \<in> set (namelibs ls)" "namelib_ok ?ws"
      by (auto simp: list_all_iff)
    have "N2N_Lib s3 = Some (hd ?ws)" "N2N_Parms s3 = parms_of ?ws"
      using True s3(4) by (simp_all add: chosen_def)
    moreover from this obtain s4 where "ConfigN2N K s3 = (if T ?ws = None then 1 else 0, s4)" "the_N2N s4 = T ?ws"
      using ConfigN2N_loads [OF assms(5) [OF last] _ s3(1)] parms_of_text [of ?ws] by auto
    ultimately show ?thesis
      using True init config_finish_result [OF noerr, of 0 s3] by auto
  next
    case False
    let ?n = "if list_all namelib_ok (namelibs ls) then 0 else 1 :: int"
    from False s3(3,4) have "?n = 0 \<Longrightarrow> N2N_Lib s3 = None"
      by (auto simp: chosen_def split: if_splits)
    with False init s3(2) config_finish_result [OF noerr, of ?n s3] show ?thesis
      by (cases "list_all namelib_ok (namelibs ls)") fastforce+
  qed
qed

text \<open>
  C27. Without a configuration file (no name, an empty name, or a file that cannot be opened) the storage
  system is refused: the caller gets the null pointer, the global pointer is null, and no translation is
  in force.
\<close>

theorem no_config_no_storage:
  assumes "\<And>cfn. config_fn = Some cfn \<Longrightarrow> cfn = [] \<or> fst (open_rdonly K cfn (errno s) (world s)) < 0"
  shows "\<exists>s'. XrdOssGetStorageSystem K config_fn s = Some (False, s') \<and> \<not> g_hdfs_oss s' \<and> the_N2N s' = None"
  using assms
  by (cases config_fn)
    (auto simp: XrdOssGetStorageSystem_def Init_def Configure_def ConfigProc_def run_def split: prod.splits)


section \<open>A concrete configuration\<close>

text \<open>Streams that are their own view, one file, and one library that prepends its parameters.\<close>

type_synonym mini_stream = "string list \<times> cfg_line list"

definition mini_cfg :: "cfg_line list \<Rightarrow> (mini, mini_stream) cfg_lib" where
  "mini_cfg file =
     \<lparr>open_rdonly = (\<lambda>p e w. if p = ''/etc/xrootd.cfg'' then (3, e, w) else (- 1, ENOENT, w)),
      Attach = (\<lambda>fd e w. (([], file), e, w)),
      GetMyFirstWord = (\<lambda>(ws, ls). case ls of [] \<Rightarrow> (None, ([], [])) | (v, vs) # ls \<Rightarrow> (Some v, (vs, ls))),
      GetWord = (\<lambda>(ws, ls). case ws of [] \<Rightarrow> (None, ([], ls)) | w # ws \<Rightarrow> (Some (c_str w), (ws, ls))),
      GetRest = (\<lambda>(ws, ls) n. let rest = unwords (map c_str ws) in (length rest < n, rest, ([], ls))),
      LastError = (\<lambda>c. 0),
      CloseStream = (\<lambda>c e w. ((), e, w)),
      getPlugin = (\<lambda>lib name e w. (Some (\<lambda>cfn parms e w. (Some (\<lambda>p n. (0, parms @ p)), e, w)), e, w)),
      eDest_Emsg = (\<lambda>e. e)\<rparr>"

lemma nul_free_unwords: "list_all nul_free ws \<Longrightarrow> nul_free (unwords ws)"
  by (induction ws rule: unwords.induct) auto

definition mini_view :: "mini_stream \<Rightarrow> string list \<times> cfg_line list" where
  "mini_view c = (map c_str (fst c), map (\<lambda>(v, vs). (v, map c_str vs)) (snd c))"

lemma c_str_idem [simp]: "c_str (c_str t) = c_str t"
  by (rule c_str_nul_free) simp

definition mini_file :: "cfg_line list" where
  "mini_file = [(''oss.namelib'', [''libOld.so'', ''/old'']), (''all.role'', [''server'']),
     (''oss.namelib'', [''libN2N.so'', ''/store''])]"

theorem no_config_no_storage_witness:
  "\<exists>s'. XrdOssGetStorageSystem (mini_cfg mini_file) (Some ''/none'') mini_sys = Some (False, s') \<and>
     \<not> g_hdfs_oss s' \<and> the_N2N s' = None"
  by (rule no_config_no_storage) (simp add: mini_cfg_def)

lemma mini_stream_contract: "stream_contract (mini_cfg file) mini_view"
  by (auto simp: stream_contract_def mini_cfg_def mini_view_def Let_def Cons_eq_map_conv list_all_iff
      intro!: c_str_nul_free nul_free_unwords)

lemma namelibs_mini_file: "namelibs mini_file = [[''libOld.so'', ''/old''], [''libN2N.so'', ''/store'']]"
  by (simp add: namelibs_def mini_file_def)

theorem Init_uses_last_namelib_witness:
  "\<exists>s'. Init (mini_cfg mini_file) (Some ''/etc/xrootd.cfg'') mini_sys = Some (0, s') \<and>
     the_N2N s' = Some (\<lambda>p n. (0, ''/store'' @ p))"
proof -
  let ?T = "\<lambda>ws. Some (\<lambda>p (n :: int). (0 :: int, unwords (tl ws) @ p))"
  have "stream_contract (mini_cfg mini_file) mini_view"
    by (rule mini_stream_contract)
  moreover have "attached (mini_cfg mini_file) mini_view ''/etc/xrootd.cfg'' mini_file mini_sys"
    by (simp add: attached_def mini_cfg_def mini_view_def mini_file_def c_str_def)
  moreover have "loads (mini_cfg mini_file) (hd ws) ''/etc/xrootd.cfg'' (unwords (tl ws)) (?T ws)" for ws
    by (simp add: loads_def mini_cfg_def)
  ultimately show ?thesis
    using Init_uses_last_namelib [of "mini_cfg mini_file" mini_view "''/etc/xrootd.cfg''" mini_file mini_sys ?T]
    by (auto simp: namelibs_mini_file namelib_ok_def)
qed

end
