(* ===== verification/Hdfs_EnvCheck.thy ===== *)
theory Hdfs_EnvCheck
  imports Hdfs_Prelude
begin

text \<open>
  The helper program \<^verbatim>\<open>src/src/XrdHdfsEnvCheck.cc\<close>, which prints three environment variables for the
  bootstrap module to read, and what it shares with that module: the process state and the C
  library's operations on fixed-size buffers.

  A buffer is the list of its bytes; an access outside it sets \<open>p_ub\<close>.  \<^verbatim>\<open>write\<close> is the parameter \<open>W\<close>: the
  bytes it is asked to write, to its result, \<open>errno\<close> and the new world.  Lengths are \<^verbatim>\<open>size_t\<close>, with 64 bits.
\<close>

abbreviation BUFSIZE :: nat where "BUFSIZE \<equiv> 8192"


section \<open>Processes and buffers\<close>

record 'w proc =
  p_errno :: int
  p_environ :: "string \<Rightarrow> string option"
  p_ub :: bool
  p_world :: 'w

type_synonym 'w write_fn = "bytes \<Rightarrow> int \<Rightarrow> 'w \<Rightarrow> int \<times> int \<times> 'w"

definition store :: "bytes \<Rightarrow> nat \<Rightarrow> bytes \<Rightarrow> bytes" where
  "store buf off bs = take off buf @ bs @ drop (off + length bs) buf"

text \<open>\<^verbatim>\<open>snprintf (buf, n, ...)\<close> for the text it prints; it fails when the length is not an \<^verbatim>\<open>int\<close>.\<close>

definition snprintf :: "bytes \<Rightarrow> nat \<Rightarrow> string \<Rightarrow> int \<times> bytes" where
  "snprintf buf n t =
     (if 2 ^ 31 \<le> length t then (- 1, buf) else (int (length t), store buf 0 (take (n - 1) t @ [NUL])))"

definition strchr :: "char \<Rightarrow> string \<Rightarrow> nat option" where
  "strchr c t = (if c \<in> set t then Some (length (takeWhile (\<lambda>d. d \<noteq> c) t)) else None)"


section \<open>The program\<close>

partial_function (option) safe_write_loop ::
  "'w write_fn \<Rightarrow> bytes \<Rightarrow> nat \<Rightarrow> nat \<Rightarrow> int \<Rightarrow> 'w proc \<Rightarrow> (int \<times> 'w proc) option" where
  "safe_write_loop W buf cur len result s =
     (if len = 0 then Some (0, s)
      else let count = nat ((int len - result) mod 2 ^ 64)
           in if length buf < cur + count then Some (0, s\<lparr>p_ub := True\<rparr>)
              else (case W (segment buf cur count) (p_errno s) (p_world s) of
                (result, e, w) \<Rightarrow>
                  let s = s\<lparr>p_errno := e, p_world := w\<rparr>
                  in if result = - 1
                     then (if e = EINTR then safe_write_loop W buf cur len result s else Some (e, s))
                     else safe_write_loop W buf (nat (int cur + result))
                            (nat ((int len - result) mod 2 ^ 64)) result s))"

definition safe_write :: "'w write_fn \<Rightarrow> bytes \<Rightarrow> nat \<Rightarrow> 'w proc \<Rightarrow> (int \<times> 'w proc) option" where
  "safe_write W buf len s = safe_write_loop W buf 0 len 0 s"

text \<open>\<^verbatim>\<open>XWRITE\<close>: 1 when the program has to return 1.  The literal \<^verbatim>\<open>"\0"\<close> is an array of two null bytes.\<close>

definition XWRITE :: "'w write_fn \<Rightarrow> bytes \<Rightarrow> nat \<Rightarrow> 'w proc \<Rightarrow> (int \<times> 'w proc) option" where
  "XWRITE W x y s =
     Option.bind (safe_write W x y s) (\<lambda>(r, s).
       if r \<noteq> 0 then Some (1, s)
       else Option.bind (safe_write W [NUL, NUL] 1 s) (\<lambda>(r, s). Some (if r \<noteq> 0 then 1 else 0, s)))"

text \<open>One of the three statements of \<^verbatim>\<open>main\<close>: the variable's name and what \<^verbatim>\<open>getenv\<close> gave for it.\<close>

definition print_var :: "'w write_fn \<Rightarrow> string \<Rightarrow> cstr \<Rightarrow> bytes \<Rightarrow> 'w proc \<Rightarrow> (int \<times> bytes \<times> 'w proc) option" where
  "print_var W var val buf s =
     (case val of
        None \<Rightarrow> Some (0, buf, s)
      | Some v \<Rightarrow>
          (case snprintf buf BUFSIZE (var @ ''='' @ v) of
             (result, buf) \<Rightarrow>
               if 0 \<le> result
               then Option.bind (XWRITE W buf (nat result) s) (\<lambda>(r, s). Some (r, buf, s))
               else Some (0, buf, s)))"

definition envcheck_main :: "'w write_fn \<Rightarrow> 'w proc \<Rightarrow> (int \<times> 'w proc) option" where
  "envcheck_main W s =
     (let classpath = p_environ s ''CLASSPATH'';
          libhdfs_opts = p_environ s ''LIBHDFS_OPTS'';
          ld_library_path = p_environ s ''LD_LIBRARY_PATH''
      in Option.bind (print_var W ''CLASSPATH'' classpath (replicate (BUFSIZE + 1) NUL) s) (\<lambda>(r, buf, s).
           if r \<noteq> 0 then Some (1, s)
           else Option.bind (print_var W ''LIBHDFS_OPTS'' libhdfs_opts buf s) (\<lambda>(r, buf, s).
             if r \<noteq> 0 then Some (1, s)
             else Option.bind (print_var W ''LD_LIBRARY_PATH'' ld_library_path buf s) (\<lambda>(r, buf, s).
               if r \<noteq> 0 then Some (1, s) else Some (0, s)))))"


section \<open>Facts on buffers\<close>

lemma length_store [simp]: "off + length bs \<le> length buf \<Longrightarrow> length (store buf off bs) = length buf"
  by (simp add: store_def)

lemma take_store: "take (length bs) (store buf 0 bs) = bs"
  by (simp add: store_def)

lemma strchr_append [cstring_simps]: "c \<notin> set xs \<Longrightarrow> strchr c (xs @ c # ys) = Some (length xs)"
  by (simp add: strchr_def takeWhile_append)

lemma strchr_None [cstring_simps]: "c \<notin> set xs \<Longrightarrow> strchr c xs = None"
  by (simp add: strchr_def)


section \<open>What the program prints\<close>

text \<open>A \<^verbatim>\<open>write\<close> that takes every buffer whole, as a blocking one does when it is not interrupted.\<close>

definition write_all :: "'w write_fn \<Rightarrow> ('w \<Rightarrow> bytes) \<Rightarrow> bool" where
  "write_all W out \<longleftrightarrow>
     (\<forall>bs e w. bs \<noteq> [] \<longrightarrow> (\<exists>e' w'. W bs e w = (int (length bs), e', w') \<and> out w' = out w @ bs))"

definition printed :: "('w \<Rightarrow> bytes) \<Rightarrow> bytes \<Rightarrow> 'w proc \<Rightarrow> 'w proc \<Rightarrow> bool" where
  "printed out bs s s' \<longleftrightarrow> p_environ s' = p_environ s \<and> p_ub s' = p_ub s \<and> out (p_world s') = out (p_world s) @ bs"

lemma printed_Nil [simp]: "printed out [] s s"
  by (simp add: printed_def)

lemma printed_trans: "printed out bs s s1 \<Longrightarrow> printed out bs' s1 s2 \<Longrightarrow> printed out (bs @ bs') s s2"
  by (simp add: printed_def)

text \<open>An entry of the output: the variable and its value, ended by a null byte; nothing when it is not set.\<close>

definition entry :: "string \<Rightarrow> cstr \<Rightarrow> bytes" where
  "entry var val = (case val of None \<Rightarrow> [] | Some v \<Rightarrow> var @ ''='' @ v @ [NUL])"

definition environment_text :: "(string \<Rightarrow> string option) \<Rightarrow> bytes" where
  "environment_text env = entry ''CLASSPATH'' (env ''CLASSPATH'') @ entry ''LIBHDFS_OPTS'' (env ''LIBHDFS_OPTS'') @
     entry ''LD_LIBRARY_PATH'' (env ''LD_LIBRARY_PATH'')"

lemma safe_write_loop_step:
  assumes "0 < len" and "nat ((int len - result) mod 2 ^ 64) = count" and "cur + count \<le> length buf"
    and "W (segment buf cur count) (p_errno s) (p_world s) = (r, e, w)"
  shows "safe_write_loop W buf cur len result s =
    (if r = - 1 then (if e = EINTR then safe_write_loop W buf cur len r (s\<lparr>p_errno := e, p_world := w\<rparr>)
                      else Some (e, s\<lparr>p_errno := e, p_world := w\<rparr>))
     else safe_write_loop W buf (nat (int cur + r)) (nat ((int len - r) mod 2 ^ 64)) r (s\<lparr>p_errno := e, p_world := w\<rparr>))"
  using assms by (subst safe_write_loop.simps) (simp add: Let_def)

lemma safe_write_loop_outside:
  "0 < len \<Longrightarrow> length buf < cur + nat ((int len - result) mod 2 ^ 64) \<Longrightarrow>
   safe_write_loop W buf cur len result s = Some (0, s\<lparr>p_ub := True\<rparr>)"
  by (simp add: safe_write_loop.simps)

lemma safe_write_all:
  assumes "write_all W out" and "len \<le> length buf" and "length buf < 2 ^ 63"
  shows "\<exists>s'. safe_write W buf len s = Some (0, s') \<and> printed out (take len buf) s s'"
proof (cases "len = 0")
  case True
  then show ?thesis by (simp add: safe_write_def safe_write_loop.simps)
next
  case False
  with assms(2) have ne: "take len buf \<noteq> []" by auto
  from assms(2,3) have mod: "nat (int len mod 2 ^ 64) = len" by simp
  from assms(1) ne obtain e' w' where w: "W (take len buf) (p_errno s) (p_world s) = (int len, e', w')"
    "out w' = out (p_world s) @ take len buf"
    unfolding write_all_def using assms(2) by (metis length_take min.absorb2)
  have "safe_write W buf len s = Some (0, s\<lparr>p_errno := e', p_world := w'\<rparr>)"
    using False assms(2) w(1) mod
    by (simp add: safe_write_def safe_write_loop.simps segment_def)
  with w(2) show ?thesis by (simp add: printed_def)
qed

lemma XWRITE_all:
  assumes "write_all W out" and "len \<le> length buf" and "length buf < 2 ^ 63"
  shows "\<exists>s'. XWRITE W buf len s = Some (0, s') \<and> printed out (take len buf @ [NUL]) s s'"
proof -
  obtain s1 where 1: "safe_write W buf len s = Some (0, s1)" "printed out (take len buf) s s1"
    using safe_write_all [OF assms] by blast
  moreover obtain s2 where "safe_write W [NUL, NUL] 1 s1 = Some (0, s2)" "printed out [NUL] s1 s2"
    using safe_write_all [OF assms(1), of 1 "[NUL, NUL]" s1] by auto
  ultimately show ?thesis by (auto simp: XWRITE_def intro: printed_trans)
qed

lemma print_var_all:
  assumes "write_all W out" and "length buf = BUFSIZE + 1" and "\<And>v. val = Some v \<Longrightarrow> length var + length v < BUFSIZE - 1"
  shows "\<exists>buf' s'. print_var W var val buf s = Some (0, buf', s') \<and> length buf' = BUFSIZE + 1 \<and> printed out (entry var val) s s'"
proof (cases val)
  case None
  with assms(2) show ?thesis by (simp add: print_var_def entry_def)
next
  case (Some v)
  let ?t = "var @ ''='' @ v"
  let ?buf = "store buf 0 (?t @ [NUL])"
  from assms(3) [OF Some] have len: "length ?t < BUFSIZE" by simp
  with assms(2) have "length ?buf = BUFSIZE + 1" by (subst length_store) simp_all
  moreover have "take (length ?t) ?buf = ?t" by (simp add: store_def)
  moreover have "snprintf buf BUFSIZE ?t = (int (length ?t), ?buf)"
    using len by (simp add: snprintf_def)
  ultimately show ?thesis
    using XWRITE_all [OF assms(1), of "length ?t" ?buf s] len Some
    by (auto simp: print_var_def entry_def nat_add_distrib nat_int_add)
qed

lemma envcheck_prints:
  assumes "write_all W out"
    and "\<And>var v. p_environ s var = Some v \<Longrightarrow> var \<in> {''CLASSPATH'', ''LIBHDFS_OPTS'', ''LD_LIBRARY_PATH''} \<Longrightarrow>
      length var + length v < BUFSIZE - 1"
  shows "\<exists>s'. envcheck_main W s = Some (0, s') \<and> printed out (environment_text (p_environ s)) s s'"
proof -
  obtain b1 s1 where 1: "print_var W ''CLASSPATH'' (p_environ s ''CLASSPATH'') (replicate (BUFSIZE + 1) NUL) s = Some (0, b1, s1)"
    "length b1 = BUFSIZE + 1" "printed out (entry ''CLASSPATH'' (p_environ s ''CLASSPATH'')) s s1"
    using print_var_all [OF assms(1) length_replicate, of "p_environ s ''CLASSPATH''" "''CLASSPATH''" NUL s] assms(2) [of "''CLASSPATH''"] by auto
  obtain b2 s2 where 2: "print_var W ''LIBHDFS_OPTS'' (p_environ s ''LIBHDFS_OPTS'') b1 s1 = Some (0, b2, s2)"
    "length b2 = BUFSIZE + 1" "printed out (entry ''LIBHDFS_OPTS'' (p_environ s ''LIBHDFS_OPTS'')) s1 s2"
    using print_var_all [OF assms(1) 1(2), of "p_environ s ''LIBHDFS_OPTS''" "''LIBHDFS_OPTS''" s1] assms(2) [of "''LIBHDFS_OPTS''"] by auto
  obtain b3 s3 where 3: "print_var W ''LD_LIBRARY_PATH'' (p_environ s ''LD_LIBRARY_PATH'') b2 s2 = Some (0, b3, s3)"
    "printed out (entry ''LD_LIBRARY_PATH'' (p_environ s ''LD_LIBRARY_PATH'')) s2 s3"
    using print_var_all [OF assms(1) 2(2), of "p_environ s ''LD_LIBRARY_PATH''" "''LD_LIBRARY_PATH''" s2] assms(2) [of "''LD_LIBRARY_PATH''"] by auto
  have "envcheck_main W s = Some (0, s3)"
    using 1(1) 2(1) 3(1) by (simp add: envcheck_main_def)
  moreover have "printed out (environment_text (p_environ s)) s s3"
    using printed_trans [OF 1(3) printed_trans [OF 2(3) 3(2)]] by (simp add: environment_text_def)
  ultimately show ?thesis by blast
qed

text \<open>
  C40. \<^verbatim>\<open>safe_write\<close> is not safe: when its first write takes more than half of the bytes but not all of
  them, or is interrupted and the next one takes all it is asked for, it goes on to ask for bytes
  outside its buffer.
\<close>

theorem safe_write_overruns:
  assumes "0 < len" and "len \<le> length buf" and "length buf < 2 ^ 63"
    and "W (take len buf) (p_errno s) (p_world s) = (r, e1, w1)"
    and "int len < 2 * r \<and> r < int len \<or>
      r = - 1 \<and> e1 = EINTR \<and> (len < length buf \<longrightarrow> W (take (Suc len) buf) e1 w1 = (int (Suc len), e2, w2))"
  shows "\<exists>rc s'. safe_write W buf len s = Some (rc, s') \<and> p_ub s'"
proof -
  from assms(2,3) have mod: "nat (int len mod 2 ^ 64) = len" by simp
  have first: "safe_write W buf len s =
    (if r = - 1 then (if e1 = EINTR then safe_write_loop W buf 0 len r (s\<lparr>p_errno := e1, p_world := w1\<rparr>)
                      else Some (e1, s\<lparr>p_errno := e1, p_world := w1\<rparr>))
     else safe_write_loop W buf (nat r) (nat ((int len - r) mod 2 ^ 64)) r (s\<lparr>p_errno := e1, p_world := w1\<rparr>))"
    using safe_write_loop_step [of len 0 len 0 buf W s r e1 w1] assms(1,2,4) mod
    by (simp add: safe_write_def segment_def)
  from assms(5) show ?thesis
  proof (elim disjE conjE)
    assume r: "int len < 2 * r" "r < int len"
    with assms(2,3) have left: "(int len - r) mod 2 ^ 64 = int len - r"
      by (intro mod_pos_pos_trivial) auto
    have "(int len - r - r) mod 2 ^ 64 = (int len - r - r + 2 ^ 64) mod 2 ^ 64" by simp
    also have "\<dots> = int len - r - r + 2 ^ 64"
      using r assms(2,3) by (intro mod_pos_pos_trivial) auto
    finally have wrap: "(int len - r - r) mod 2 ^ 64 = int len - r - r + 2 ^ 64" .
    from r assms(2,3) have "length buf < nat r + nat (int len - r - r + 2 ^ 64)" by simp
    with first r left wrap show ?thesis
      by (simp add: safe_write_loop_outside)
  next
    assume r: "r = - 1" "e1 = EINTR"
      "len < length buf \<longrightarrow> W (take (Suc len) buf) e1 w1 = (int (Suc len), e2, w2)"
    from assms(2,3) have more: "nat ((int len - r) mod 2 ^ 64) = Suc len"
      using r(1) by simp
    show ?thesis
    proof (cases "len < length buf")
      case True
      let ?s = "s\<lparr>p_errno := e2, p_world := w2\<rparr>"
      have "safe_write W buf len s = safe_write_loop W buf (nat (1 + int len)) (2 ^ 64 - 1) (1 + int len) ?s"
        using safe_write_loop_step [of len r "Suc len" 0 buf W "s\<lparr>p_errno := e1, p_world := w1\<rparr>" "int (Suc len)" e2 w2]
          first r more True assms(1)
        by (simp add: segment_def)
      moreover have "(int (2 ^ 64 - 1) - (1 + int len)) mod 2 ^ 64 = 2 ^ 64 - 2 - int len"
        using assms(2,3) by simp
      ultimately show ?thesis
        using assms(2,3) by (simp add: safe_write_loop_outside)
    next
      case False
      with first r more assms(1) show ?thesis by (simp add: safe_write_loop_outside)
    qed
  qed
qed

text \<open>Output to a list, the first write interrupted.\<close>

definition interrupted_write :: "bytes list write_fn" where
  "interrupted_write bs e w = (if w = [] then (- 1, EINTR, [[]]) else (int (length bs), e, bs # w))"

theorem safe_write_overruns_witness:
  "\<exists>rc s'. safe_write interrupted_write ''CLASSPATH=/x'' 12
     \<lparr>p_errno = 0, p_environ = (\<lambda>_. None), p_ub = False, p_world = []\<rparr> = Some (rc, s') \<and> p_ub s'"
  by (rule safe_write_overruns [where r = "- 1" and ?e1.0 = EINTR and ?w1.0 = "[[]]"])
    (simp_all add: interrupted_write_def)

end
