(* ===== verification/Hdfs_Bootstrap.thy ===== *)
theory Hdfs_Bootstrap
  imports Hdfs_EnvCheck
begin

text \<open>
  The module the server loads first, \<^verbatim>\<open>src/src/XrdHdfsBootstrap.cc\<close>: it takes three environment variables from
  the helper program, loads the Java virtual machine from \<^verbatim>\<open>LD_LIBRARY_PATH\<close> and then the module proper.

  \<^verbatim>\<open>popen\<close>, \<^verbatim>\<open>pclose\<close>, \<^verbatim>\<open>dlopen\<close> and the plugin loader are the parameter \<open>B\<close>.  \<^verbatim>\<open>popen\<close> gives all the bytes that
  will come out of the pipe, or \<^term>\<open>None\<close> for a null stream; \<^verbatim>\<open>fgets\<close> takes them line by line as the C library
  does.  \<^verbatim>\<open>setenv\<close> is taken to find the memory it needs.  Messages are left out.
\<close>


section \<open>State and parameter\<close>

text \<open>Pointers to server objects are numbers; \<^term>\<open>None\<close> is null.  \<open>boot_oss\<close> is this module's \<^verbatim>\<open>g_hdfs_oss\<close>.\<close>

record 'w boot = "'w proc" +
  boot_oss :: "nat option"

type_synonym ('w, 'a) bcall = "int \<Rightarrow> 'w \<Rightarrow> 'a \<times> int \<times> 'w"

type_synonym 'w oss_ep = "nat option \<Rightarrow> nat option \<Rightarrow> cstr \<Rightarrow> cstr \<Rightarrow> ('w, nat option) bcall"

record 'w boot_lib =
  popen :: "string \<Rightarrow> ('w, bytes option) bcall"
  pclose :: "('w, int) bcall"
  dlopen :: "string \<Rightarrow> ('w, bool) bcall"
  boot_getPlugin :: "string \<Rightarrow> string \<Rightarrow> ('w, 'w oss_ep option) bcall"
  XRDPLUGIN_SOVERSION :: string

definition brun :: "('w, 'a) bcall \<Rightarrow> 'w boot \<Rightarrow> 'a \<times> 'w boot" where
  "brun c s = (case c (p_errno s) (p_world s) of (r, e, w) \<Rightarrow> (r, s\<lparr>p_errno := e, p_world := w\<rparr>))"


section \<open>The environment\<close>

definition CheckEnvVar :: "string \<Rightarrow> string \<Rightarrow> 'w boot \<Rightarrow> bool \<times> 'w boot" where
  "CheckEnvVar var input s =
     (case strchr (CHR ''='') input of
        Some i \<Rightarrow>
          if strncmp_eq input var i
          then (True, s\<lparr>p_environ := (p_environ s)(var \<mapsto> drop (Suc i) input)\<rparr>)
          else (False, s)
      | None \<Rightarrow> (False, s))"

definition command_string :: string where
  "command_string = ''source /etc/sysconfig/xrootd-hdfs && /usr/libexec/xrootd-hdfs/xrootd_hdfs_envcheck''"

record needs =
  needs_classpath :: bool
  needs_libhdfs_opts :: bool
  needs_ld_library_path :: bool

text \<open>The body of the inner loop: each test calls \<^verbatim>\<open>CheckEnvVar\<close> only when the variable is still needed.\<close>

definition check_entry :: "string \<Rightarrow> needs \<Rightarrow> 'w boot \<Rightarrow> needs \<times> 'w boot" where
  "check_entry cur nd s =
     (case (if needs_classpath nd then CheckEnvVar ''CLASSPATH'' cur s else (False, s)) of
        (True, s) \<Rightarrow> (nd\<lparr>needs_classpath := False\<rparr>, s)
      | (False, s) \<Rightarrow>
          (case (if needs_libhdfs_opts nd then CheckEnvVar ''LIBHDFS_OPTS'' cur s else (False, s)) of
             (True, s) \<Rightarrow> (nd\<lparr>needs_libhdfs_opts := False\<rparr>, s)
           | (False, s) \<Rightarrow>
               (case (if needs_ld_library_path nd then CheckEnvVar ''LD_LIBRARY_PATH'' cur s else (False, s)) of
                  (True, s) \<Rightarrow> (nd\<lparr>needs_ld_library_path := False\<rparr>, s)
                | (False, s) \<Rightarrow> (nd, s))))"

text \<open>
  The inner loop from the position \<open>cur_pos\<close> of the buffer; reading a byte or a string that does not end
  inside the buffer is undefined.
\<close>

function scan_env :: "bytes \<Rightarrow> nat \<Rightarrow> needs \<Rightarrow> 'w boot \<Rightarrow> nat \<times> needs \<times> 'w boot" where
  "scan_env buf cur_pos nd s =
     (if NUL \<notin> set (drop cur_pos buf) then (cur_pos, nd, s\<lparr>p_ub := True\<rparr>)
      else if buf ! cur_pos = NUL then (cur_pos, nd, s)
      else let cur = c_str (drop cur_pos buf)
           in case check_entry cur nd s of
                (nd, s) \<Rightarrow> scan_env buf (cur_pos + length cur + 1) nd s)"
  by pat_completeness auto
termination
  by (relation "measure (\<lambda>(buf, cur_pos, _). length buf - cur_pos)") (auto intro: diff_less_mono2 ccontr)

declare scan_env.simps [simp del]

text \<open>\<^verbatim>\<open>fgets (buf, n, fp)\<close>: the new buffer and what is left to read, \<^term>\<open>None\<close> at the end of the input.\<close>

definition first_line :: "bytes \<Rightarrow> bytes" where
  "first_line fp = (case strchr newline fp of None \<Rightarrow> fp | Some i \<Rightarrow> take (Suc i) fp)"

definition fgets :: "bytes \<Rightarrow> nat \<Rightarrow> bytes \<Rightarrow> (bytes \<times> bytes) option" where
  "fgets buf n fp =
     (if fp = [] then None
      else let chunk = take (n - 1) (first_line fp) in Some (store buf 0 (chunk @ [NUL]), drop (length chunk) fp))"

lemma first_line_ne: "fp \<noteq> [] \<Longrightarrow> first_line fp \<noteq> []"
  by (auto simp: first_line_def split: option.splits)

lemma fgets_shorter: "fgets buf (BUFSIZE - 1) fp = Some (buf', fp') \<Longrightarrow> length fp' < length fp"
  using first_line_ne [of fp] by (auto simp: fgets_def Let_def split: if_splits)

text \<open>The outer loop; \<open>cur_pos\<close> carries over from one line to the next.\<close>

function read_env :: "bytes \<Rightarrow> nat \<Rightarrow> needs \<Rightarrow> bytes \<Rightarrow> 'w boot \<Rightarrow> 'w boot" where
  "read_env buf cur_pos nd fp s =
     (case fgets buf (BUFSIZE - 1) fp of
        None \<Rightarrow> s
      | Some (buf, fp) \<Rightarrow> (case scan_env buf cur_pos nd s of (cur_pos, nd, s) \<Rightarrow> read_env buf cur_pos nd fp s))"
  by pat_completeness auto
termination
  by (relation "measure (\<lambda>(_, _, _, fp, _). length fp)") (auto dest: fgets_shorter [simplified])

declare read_env.simps [simp del]

definition WIFEXITED :: "int \<Rightarrow> bool" where
  "WIFEXITED status \<longleftrightarrow> status AND 127 = 0"

definition WEXITSTATUS :: "int \<Rightarrow> int" where
  "WEXITSTATUS status = drop_bit 8 (status AND 65280)"

definition DetermineEnvironment :: "'w boot_lib \<Rightarrow> 'w boot \<Rightarrow> int \<times> 'w boot" where
  "DetermineEnvironment B s =
     (case brun (popen B command_string) s of
        (None, s) \<Rightarrow> (1, s)
      | (Some fp, s) \<Rightarrow>
          let s = read_env (replicate BUFSIZE NUL) 0
                    \<lparr>needs_classpath = True, needs_libhdfs_opts = True, needs_ld_library_path = True\<rparr> fp s
          in case brun (pclose B) s of
               (status, s) \<Rightarrow>
                 if status = - 1 then (1, s)
                 else if WIFEXITED status then (if WEXITSTATUS status \<noteq> 0 then (1, s) else (0, s))
                 else (1, s))"


section \<open>The Java virtual machine\<close>

text \<open>
  \<^verbatim>\<open>strncpy (buf + off, src, n)\<close>, which pads with null bytes.  A store past the end shows as a buffer that
  is longer than before.
\<close>

definition strncpy :: "bytes \<Rightarrow> nat \<Rightarrow> string \<Rightarrow> nat \<Rightarrow> bytes" where
  "strncpy buf off src n = store buf off (take n src @ replicate (n - length src) NUL)"

text \<open>One directory of the path, the first \<open>len\<close> characters of what is left of it.\<close>

definition jvm_try :: "'w boot_lib \<Rightarrow> string \<Rightarrow> nat \<Rightarrow> bytes \<Rightarrow> 'w boot \<Rightarrow> bool \<times> bytes \<times> 'w boot" where
  "jvm_try B path len buf s =
     (if len \<noteq> 0
      then let buf = strncpy buf 0 path len;
               buf = strncpy buf len ''/libjvm.so'' (BUFSIZE - len);
               s = (if length buf = BUFSIZE then s else s\<lparr>p_ub := True\<rparr>)
           in case brun (dlopen B (c_str buf)) s of (found, s) \<Rightarrow> (found, buf, s)
      else (False, buf, s))"

function loadJvm_loop :: "'w boot_lib \<Rightarrow> string \<Rightarrow> bytes \<Rightarrow> 'w boot \<Rightarrow> int \<times> 'w boot" where
  "loadJvm_loop B path buf s =
     (let next = strchr (CHR '':'') path;
          len = (case next of Some i \<Rightarrow> i | None \<Rightarrow> length path)
      in if BUFSIZE \<le> len + length ''/libjvm.so'' then (1, s)
         else case jvm_try B path len buf s of
                (found, buf, s) \<Rightarrow>
                  if found then (0, s)
                  else (case next of
                          None \<Rightarrow> (1, s)
                        | Some i \<Rightarrow>
                            let path = drop (Suc i) path
                            in if path = [] then (1, s) else loadJvm_loop B path buf s))"
  by pat_completeness auto
termination
  by (relation "measure (\<lambda>(_, path, _, _). length path)")
    (auto simp: strchr_def split: if_splits)

declare loadJvm_loop.simps [simp del]

definition loadJvm :: "'w boot_lib \<Rightarrow> 'w boot \<Rightarrow> int \<times> 'w boot" where
  "loadJvm B s =
     (case p_environ s ''LD_LIBRARY_PATH'' of
        None \<Rightarrow> (1, s)
      | Some path \<Rightarrow> loadJvm_loop B path (replicate BUFSIZE NUL) s)"


section \<open>Loading the module proper\<close>

definition Bootstrap :: "'w boot_lib \<Rightarrow> nat option \<Rightarrow> nat option \<Rightarrow> cstr \<Rightarrow> cstr \<Rightarrow> 'w boot \<Rightarrow> nat option \<times> 'w boot" where
  "Bootstrap B native_oss Logger config_fn parms s =
     (case DetermineEnvironment B s of
        (r, s) \<Rightarrow>
          if r \<noteq> 0 then (None, s)
          else (case loadJvm B s of
            (_, s) \<Rightarrow>
              (case brun (boot_getPlugin B (''libXrdHdfsReal-'' @ XRDPLUGIN_SOVERSION B @ ''.so'') ''XrdOssGetStorageSystem'') s of
                 (None, s) \<Rightarrow> (None, s)
               | (Some ep, s) \<Rightarrow> brun (ep native_oss Logger config_fn parms) s)))"

definition boot_GetStorageSystem ::
  "'w boot_lib \<Rightarrow> nat option \<Rightarrow> nat option \<Rightarrow> cstr \<Rightarrow> cstr \<Rightarrow> 'w boot \<Rightarrow> nat option \<times> 'w boot" where
  "boot_GetStorageSystem B native_oss Logger config_fn parms s =
     (case boot_oss s of
        Some p \<Rightarrow> (Some p, s)
      | None \<Rightarrow>
          (case Bootstrap B native_oss Logger config_fn parms s of
             (None, s) \<Rightarrow> (None, s)
           | (Some result, s) \<Rightarrow> (Some result, s\<lparr>boot_oss := Some result\<rparr>)))"


section \<open>The buffer is not overrun\<close>

text \<open>Reading the environment changes nothing but the environment.\<close>

definition env_frame :: "'w boot \<Rightarrow> 'w boot \<Rightarrow> bool" where
  "env_frame s s' \<longleftrightarrow> (\<exists>env. s' = s\<lparr>p_environ := env\<rparr>)"

lemma env_frame_refl [simp]: "env_frame s s"
  by (auto simp: env_frame_def intro: exI [of _ "p_environ s"])

lemma env_frame_trans: "env_frame s s1 \<Longrightarrow> env_frame s1 s2 \<Longrightarrow> env_frame s s2"
  by (auto simp: env_frame_def)

lemma env_frame_fields: "env_frame s s' \<Longrightarrow> p_ub s' = p_ub s \<and> boot_oss s' = boot_oss s"
  by (auto simp: env_frame_def)

lemma CheckEnvVar_frame: "env_frame s (snd (CheckEnvVar var input s))"
  by (auto simp: CheckEnvVar_def split: option.splits) (auto simp: env_frame_def)

lemma env_frame_test:
  assumes "env_frame s0 s" and "\<And>s. env_frame s0 s \<Longrightarrow> env_frame s0 (snd (Y s))"
  shows "env_frame s0 (snd (case (if b then CheckEnvVar var cur s else (False, s)) of
    (True, s) \<Rightarrow> (a, s) | (False, s) \<Rightarrow> Y s))"
proof (cases "if b then CheckEnvVar var cur s else (False, s)")
  case (Pair r s1)
  then have "env_frame s s1" using CheckEnvVar_frame [of s var cur] by (auto split: if_splits)
  from env_frame_trans [OF assms(1) this] assms(2) Pair show ?thesis by (cases r) simp_all
qed

lemma check_entry_frame: "env_frame s (snd (check_entry cur nd s))"
  unfolding check_entry_def by (intro env_frame_test) simp_all

text \<open>
  The last two bytes of the buffer stay null: \<^verbatim>\<open>fgets\<close> is called for one byte less than the buffer's size
  and ends its line with a null byte.
\<close>

definition buf_ok :: "bytes \<Rightarrow> bool" where
  "buf_ok buf \<longleftrightarrow> length buf = BUFSIZE \<and> buf ! (BUFSIZE - 2) = NUL \<and> buf ! (BUFSIZE - 1) = NUL"

lemma buf_ok_fgets:
  assumes "buf_ok buf" and "fgets buf (BUFSIZE - 1) fp = Some (buf', fp')"
  shows "buf_ok buf'"
proof -
  obtain chunk where c: "length chunk \<le> BUFSIZE - 2" "buf' = store buf 0 (chunk @ [NUL])"
    using assms(2) that [of "take (BUFSIZE - 2) (first_line fp)"] by (auto simp: fgets_def Let_def split: if_splits)
  have "store buf 0 (chunk @ [NUL]) ! i = NUL" if "length chunk \<le> i" "i < length buf" "buf ! i = NUL" for i
    using that by (cases "i = length chunk") (simp_all add: store_def nth_append)
  with assms(1) c show ?thesis by (simp add: buf_ok_def)
qed

lemma c_str_stops:
  assumes "pos \<le> q" and "q < length buf" and "buf ! q = NUL"
  shows "pos + length (c_str (drop pos buf)) \<le> q"
proof (rule ccontr)
  assume "\<not> ?thesis"
  then have "q - pos < length (c_str (drop pos buf))" using assms(1) by simp
  then have "c_str (drop pos buf) ! (q - pos) \<noteq> NUL"
    using nul_free_c_str [of "drop pos buf"] by (metis nul_free_def nth_mem)
  moreover have "c_str (drop pos buf) ! (q - pos) = drop pos buf ! (q - pos)"
    using \<open>q - pos < _\<close> by (simp add: c_str_def takeWhile_nth)
  ultimately show False using assms by simp
qed

lemma scan_env_bounds:
  assumes "buf_ok buf" and "cur_pos \<le> BUFSIZE - 1" and "scan_env buf cur_pos nd s = (cur_pos', nd', s')"
  shows "cur_pos' \<le> BUFSIZE - 1 \<and> env_frame s s'"
  using assms
proof (induction buf cur_pos nd s rule: scan_env.induct)
  case (1 buf cur_pos nd s)
  have ends: "NUL \<in> set (drop cur_pos buf)"
    using 1(2,3) in_set_conv_nth [of NUL "drop cur_pos buf"] by (auto simp: buf_ok_def intro: exI [of _ "BUFSIZE - 1 - cur_pos"])
  show ?case
  proof (cases "buf ! cur_pos = NUL")
    case True
    with 1(3,4) ends show ?thesis by (simp add: scan_env.simps [of buf cur_pos])
  next
    case False
    let ?cur = "c_str (drop cur_pos buf)"
    obtain nd1 s1 where c: "check_entry ?cur nd s = (nd1, s1)" by fastforce
    from False 1(2,3) have "cur_pos \<le> BUFSIZE - 2"
      by (cases "cur_pos = BUFSIZE - 1") (auto simp: buf_ok_def)
    with 1(2) have "cur_pos + length ?cur \<le> BUFSIZE - 2"
      by (intro c_str_stops) (auto simp: buf_ok_def)
    moreover have "scan_env buf (cur_pos + length ?cur + 1) nd1 s1 = (cur_pos', nd', s')"
      using 1(4) ends False c by (simp add: scan_env.simps [of buf cur_pos])
    moreover have "env_frame s s1" using check_entry_frame [of s ?cur nd] c by simp
    ultimately show ?thesis
      using 1(1) [OF _ False refl c [symmetric] 1(2)] ends by (auto intro: env_frame_trans)
  qed
qed

lemma read_env_frame: "buf_ok buf \<Longrightarrow> cur_pos \<le> BUFSIZE - 1 \<Longrightarrow> env_frame s (read_env buf cur_pos nd fp s)"
proof (induction buf cur_pos nd fp s rule: read_env.induct)
  case (1 buf cur_pos nd fp s)
  show ?case
  proof (cases "fgets buf (BUFSIZE - 1) fp")
    case None
    then show ?thesis by (simp add: read_env.simps)
  next
    case (Some r)
    obtain buf1 fp1 where r: "r = (buf1, fp1)" by (cases r)
    obtain pos1 nd1 s1 where c: "scan_env buf1 cur_pos nd s = (pos1, nd1, s1)" by (cases "scan_env buf1 cur_pos nd s")
    note ok = buf_ok_fgets [OF 1(2) Some [unfolded r]]
    from scan_env_bounds [OF ok 1(3) c] 1(1) [OF Some r [symmetric] c [symmetric] refl ok] show ?thesis
      using Some r c by (subst read_env.simps) (auto intro: env_frame_trans)
  qed
qed

lemma buf_ok_start [simp]: "buf_ok (replicate BUFSIZE NUL)"
  by (simp add: buf_ok_def)

lemma brun_frame: "brun c s = (r, s') \<Longrightarrow> p_ub s' = p_ub s \<and> boot_oss s' = boot_oss s \<and> p_environ s' = p_environ s"
  by (auto simp: brun_def split: prod.splits)

lemma read_env_keeps:
  "p_ub (read_env (replicate BUFSIZE NUL) 0 nd fp s) = p_ub s"
  "boot_oss (read_env (replicate BUFSIZE NUL) 0 nd fp s) = boot_oss s"
  using env_frame_fields [OF read_env_frame [OF buf_ok_start, of 0 s nd fp]] by simp_all

lemma DetermineEnvironment_frame:
  "p_ub (snd (DetermineEnvironment B s)) = p_ub s \<and> boot_oss (snd (DetermineEnvironment B s)) = boot_oss s"
  by (auto simp: DetermineEnvironment_def Let_def brun_def read_env_keeps split: prod.split option.split)

text \<open>
  C24. Whatever the helper program prints, reading it stays inside the buffer of 8192 bytes: \<^verbatim>\<open>DetermineEnvironment\<close>
  makes no undefined access, although it never goes back to the start of the buffer.
\<close>

theorem DetermineEnvironment_in_bounds: "p_ub (snd (DetermineEnvironment B s)) = p_ub s"
  using DetermineEnvironment_frame [of B s] by simp


section \<open>Reading what the helper printed\<close>

text \<open>The entries of the output, without their null bytes, and their effect when they are looked at in order.\<close>

definition var_entry :: "string \<Rightarrow> cstr \<Rightarrow> string list" where
  "var_entry var val = (case val of None \<Rightarrow> [] | Some v \<Rightarrow> [var @ ''='' @ v])"

definition entries :: "(string \<Rightarrow> string option) \<Rightarrow> string list" where
  "entries env = var_entry ''CLASSPATH'' (env ''CLASSPATH'') @ var_entry ''LIBHDFS_OPTS'' (env ''LIBHDFS_OPTS'') @
     var_entry ''LD_LIBRARY_PATH'' (env ''LD_LIBRARY_PATH'')"

definition ended :: "string list \<Rightarrow> bytes" where
  "ended es = concat (map (\<lambda>e. e @ [NUL]) es)"

fun check_entries :: "string list \<Rightarrow> needs \<Rightarrow> 'w boot \<Rightarrow> needs \<times> 'w boot" where
  "check_entries [] nd s = (nd, s)"
| "check_entries (e # es) nd s = (case check_entry e nd s of (nd, s) \<Rightarrow> check_entries es nd s)"

lemma environment_text_entries: "environment_text env = ended (entries env)"
  by (simp add: environment_text_def entries_def ended_def entry_def var_entry_def split: option.splits)

lemma ended_simps [simp]: "ended [] = []" "ended (e # es) = e @ NUL # ended es" "ended (es @ fs) = ended es @ ended fs"
  by (simp_all add: ended_def)

lemma scan_env_entries:
  assumes "list_all (\<lambda>e. nul_free e \<and> e \<noteq> []) es"
  shows "scan_env (pre @ ended es @ NUL # rest) (length pre) nd s =
    (length pre + length (ended es), check_entries es nd s)"
  using assms
proof (induction es arbitrary: pre nd s)
  case Nil
  then show ?case by (simp add: scan_env.simps nth_append)
next
  case (Cons e es)
  let ?buf = "pre @ ended (e # es) @ NUL # rest"
  from Cons.prems have e: "nul_free e" "e \<noteq> []" "hd e \<noteq> NUL"
    by (auto simp: nul_free_def) (metis hd_in_set)
  have cur: "c_str (drop (length pre) ?buf) = e" using e(1) by (simp add: c_str_append_nul)
  obtain nd1 s1 where c: "check_entry e nd s = (nd1, s1)" by fastforce
  have "?buf ! length pre \<noteq> NUL" using e(2,3) by (simp add: nth_append hd_conv_nth)
  then have "scan_env ?buf (length pre) nd s = scan_env ?buf (length (pre @ e @ [NUL])) nd1 s1"
    using cur c by (subst scan_env.simps) simp
  with Cons.IH [of "pre @ e @ [NUL]" nd1 s1] Cons.prems c show ?case by simp
qed

lemma CheckEnvVar_match:
  "CHR ''='' \<notin> set var \<Longrightarrow>
   CheckEnvVar var (var @ CHR ''='' # v) s = (True, s\<lparr>p_environ := (p_environ s)(var \<mapsto> v)\<rparr>)"
  by (simp add: CheckEnvVar_def strchr_append strncmp_eq_def)

lemma CheckEnvVar_other:
  "CHR ''='' \<notin> set name \<Longrightarrow> take (length name) (var @ [NUL]) \<noteq> name \<Longrightarrow>
   CheckEnvVar var (name @ CHR ''='' # v) s = (False, s)"
  by (simp add: CheckEnvVar_def strchr_append strncmp_eq_def)

lemma check_entry_CLASSPATH:
  "needs_classpath nd \<Longrightarrow> check_entry (''CLASSPATH'' @ CHR ''='' # v) nd s =
   (nd\<lparr>needs_classpath := False\<rparr>, s\<lparr>p_environ := (p_environ s)(''CLASSPATH'' \<mapsto> v)\<rparr>)"
  using CheckEnvVar_match [of "''CLASSPATH''" v s] by (simp add: check_entry_def)

lemma check_entry_LIBHDFS_OPTS:
  "needs_libhdfs_opts nd \<Longrightarrow> check_entry (''LIBHDFS_OPTS'' @ CHR ''='' # v) nd s =
   (nd\<lparr>needs_libhdfs_opts := False\<rparr>, s\<lparr>p_environ := (p_environ s)(''LIBHDFS_OPTS'' \<mapsto> v)\<rparr>)"
  using CheckEnvVar_match [of "''LIBHDFS_OPTS''" v s] CheckEnvVar_other [of "''LIBHDFS_OPTS''" "''CLASSPATH''" v s]
  by (simp add: check_entry_def)

lemma check_entry_LD_LIBRARY_PATH:
  "needs_ld_library_path nd \<Longrightarrow> check_entry (''LD_LIBRARY_PATH'' @ CHR ''='' # v) nd s =
   (nd\<lparr>needs_ld_library_path := False\<rparr>, s\<lparr>p_environ := (p_environ s)(''LD_LIBRARY_PATH'' \<mapsto> v)\<rparr>)"
  using CheckEnvVar_match [of "''LD_LIBRARY_PATH''" v s] CheckEnvVar_other [of "''LD_LIBRARY_PATH''" "''CLASSPATH''" v s]
    CheckEnvVar_other [of "''LD_LIBRARY_PATH''" "''LIBHDFS_OPTS''" v s]
  by (simp add: check_entry_def)

lemmas check_entry_simps = check_entry_CLASSPATH [simplified] check_entry_LIBHDFS_OPTS [simplified]
  check_entry_LD_LIBRARY_PATH [simplified]

text \<open>The environment after the three variables of \<open>env\<close> are taken over, as far as they are set.\<close>

definition imported :: "(string \<Rightarrow> string option) \<Rightarrow> (string \<Rightarrow> string option) \<Rightarrow> string \<Rightarrow> string option" where
  "imported env base var =
     (if var \<in> {''CLASSPATH'', ''LIBHDFS_OPTS'', ''LD_LIBRARY_PATH''} \<and> env var \<noteq> None then env var else base var)"

abbreviation all_needed :: needs where
  "all_needed \<equiv> \<lparr>needs_classpath = True, needs_libhdfs_opts = True, needs_ld_library_path = True\<rparr>"

definition import_var :: "string \<Rightarrow> cstr \<Rightarrow> (string \<Rightarrow> string option) \<Rightarrow> string \<Rightarrow> string option" where
  "import_var var val base = (case val of None \<Rightarrow> base | Some v \<Rightarrow> base(var \<mapsto> v))"

lemma imported_vars:
  "imported env base = import_var ''LD_LIBRARY_PATH'' (env ''LD_LIBRARY_PATH'')
     (import_var ''LIBHDFS_OPTS'' (env ''LIBHDFS_OPTS'') (import_var ''CLASSPATH'' (env ''CLASSPATH'') base))"
  by (auto simp: fun_eq_iff imported_def import_var_def split: option.split)

lemma check_entries_imports:
  "snd (check_entries (entries env) all_needed s) = s\<lparr>p_environ := imported env (p_environ s)\<rparr>"
  unfolding imported_vars
  by (cases "env ''CLASSPATH''"; cases "env ''LIBHDFS_OPTS''"; cases "env ''LD_LIBRARY_PATH''")
    (simp_all add: entries_def var_entry_def check_entry_simps import_var_def)

text \<open>The helper program ran, printed \<open>txt\<close> and exited with 0.\<close>

definition helper_prints :: "'w boot_lib \<Rightarrow> bytes \<Rightarrow> bool" where
  "helper_prints B txt \<longleftrightarrow>
     (\<forall>e w. \<exists>e' w'. popen B command_string e w = (Some txt, e', w')) \<and> (\<forall>e w. fst (pclose B e w) = 0)"

lemma DetermineEnvironment_reads:
  fixes s :: "'w boot"
  assumes "helper_prints B txt"
    and "\<And>s1 :: 'w boot. p_environ s1 = p_environ s \<Longrightarrow> p_environ (read_env (replicate BUFSIZE NUL) 0 all_needed txt s1) = env"
  shows "\<exists>s'. DetermineEnvironment B s = (0, s') \<and> p_environ s' = env"
proof -
  obtain e' w' where "popen B command_string (p_errno s) (p_world s) = (Some txt, e', w')"
    using assms(1) unfolding helper_prints_def by blast
  moreover define s2 where "s2 = read_env (replicate BUFSIZE NUL) 0 all_needed txt (s\<lparr>p_errno := e', p_world := w'\<rparr>)"
  moreover obtain e2 w2 where "pclose B (p_errno s2) (p_world s2) = (0, e2, w2)"
    using assms(1) unfolding helper_prints_def by (metis prod.collapse)
  moreover have "p_environ s2 = env" using assms(2) by (simp add: s2_def)
  ultimately show ?thesis
    by (simp add: DetermineEnvironment_def brun_def WIFEXITED_def WEXITSTATUS_def)
qed

lemma first_line_all: "newline \<notin> set fp \<Longrightarrow> first_line fp = fp"
  by (simp add: first_line_def strchr_None)

lemma take_first_line:
  assumes "newline \<notin> set (take n fp)"
  shows "take n (first_line fp) = take n fp"
proof (cases "newline \<in> set fp")
  case True
  then obtain xs ys where fp: "fp = xs @ newline # ys" "newline \<notin> set xs" by (meson split_list_first)
  with assms have "n \<le> length xs" by (cases "n - length xs") auto
  with fp show ?thesis by (simp add: first_line_def strchr_append)
qed (simp add: first_line_def strchr_def)

lemma fgets_fits:
  assumes "newline \<notin> set fp" and "fp \<noteq> []" and "length fp \<le> BUFSIZE - 2"
  shows "fgets (replicate BUFSIZE NUL) (BUFSIZE - 1) fp = Some (fp @ NUL # replicate (BUFSIZE - 1 - length fp) NUL, [])"
  using assms by (simp add: fgets_def first_line_all store_def Let_def drop_replicate)

lemma read_env_fits:
  assumes "list_all (\<lambda>e. nul_free e \<and> e \<noteq> [] \<and> newline \<notin> set e) es" and "length (ended es) \<le> BUFSIZE - 2"
  shows "read_env (replicate BUFSIZE NUL) 0 nd (ended es) s = snd (check_entries es nd s)"
proof (cases es)
  case Nil
  then show ?thesis by (simp add: read_env.simps fgets_def)
next
  case (Cons e es')
  have nn: "newline \<notin> set (ended es)" using assms(1) by (auto simp: ended_def list_all_iff)
  have "list_all (\<lambda>e. nul_free e \<and> e \<noteq> []) es" using assms(1) by (auto simp: list_all_iff)
  note scan = scan_env_entries [OF this, of "[]" "replicate (BUFSIZE - 1 - length (ended es)) NUL" nd s]
  have "fgets buf (BUFSIZE - 1) [] = None" for buf by (simp add: fgets_def)
  then have "read_env buf pos nd [] s = s" for buf pos nd and s :: "'a boot" by (subst read_env.simps) simp
  with scan fgets_fits [OF nn _ assms(2)] Cons show ?thesis
    by (subst read_env.simps) (simp split: prod.split)
qed

text \<open>
  C23. The environment passes from the helper program to the module: when the three variables hold no newline and
  their text fits into 8190 bytes, the program prints them and ends with 0, and a \<^verbatim>\<open>DetermineEnvironment\<close> that
  reads what it printed succeeds and sets exactly the variables that were set there, to the same values,
  and leaves every other variable alone.
\<close>

theorem environment_roundtrip:
  assumes "write_all W out" and "out (p_world child) = []"
    and "length (environment_text (p_environ child)) \<le> BUFSIZE - 2"
    and "\<And>var v. p_environ child var = Some v \<Longrightarrow> nul_free v \<and> newline \<notin> set v"
  shows "\<exists>child'. envcheck_main W child = Some (0, child') \<and>
    (\<forall>B s. helper_prints B (out (p_world child')) \<longrightarrow>
      (\<exists>s'. DetermineEnvironment B s = (0, s') \<and> p_environ s' = imported (p_environ child) (p_environ s)))"
proof -
  let ?env = "p_environ child"
  have "length var + length v < BUFSIZE - 1"
    if "?env var = Some v" "var \<in> {''CLASSPATH'', ''LIBHDFS_OPTS'', ''LD_LIBRARY_PATH''}" for var v
    using assms(3) that by (auto simp: environment_text_def entry_def)
  from envcheck_prints [OF assms(1) this, of child] obtain child' where
    main: "envcheck_main W child = Some (0, child')" "out (p_world child') = environment_text ?env"
    using assms(2) by (auto simp: printed_def)
  have es: "list_all (\<lambda>e. nul_free e \<and> e \<noteq> [] \<and> newline \<notin> set e) (entries ?env)"
    using assms(4) by (auto simp: entries_def var_entry_def split: option.split)
  have "\<exists>s'. DetermineEnvironment B s = (0, s') \<and> p_environ s' = imported ?env (p_environ s)"
    if "helper_prints B (environment_text ?env)" for B s
    using that unfolding environment_text_entries
    by (rule DetermineEnvironment_reads)
      (use assms(3) in \<open>simp add: read_env_fits [OF es] check_entries_imports environment_text_entries\<close>)
  with main show ?thesis by auto
qed

lemma read_env_ended:
  assumes "buf_ok buf"
  shows "read_env buf (BUFSIZE - 1) nd fp s = s"
  using assms
proof (induction fp arbitrary: buf s rule: length_induct)
  case (1 fp)
  show ?case
  proof (cases "fgets buf (BUFSIZE - 1) fp")
    case None
    then show ?thesis by (simp add: read_env.simps)
  next
    case (Some r)
    obtain buf1 fp1 where r: "r = (buf1, fp1)" by (cases r)
    note ok = buf_ok_fgets [OF 1(2) Some [unfolded r]]
    then have "drop (BUFSIZE - 1) buf1 = [NUL]"
      by (simp add: buf_ok_def Cons_nth_drop_Suc [symmetric])
    with ok have "scan_env buf1 (BUFSIZE - 1) nd s = (BUFSIZE - 1, nd, s)"
      by (simp add: scan_env.simps buf_ok_def)
    with 1(1) ok fgets_shorter [OF Some [unfolded r]] Some r show ?thesis
      by (subst read_env.simps) simp
  qed
qed

lemma read_env_cut:
  assumes "take (BUFSIZE - 2) fp = ended es @ t" and "length (ended es @ t) = BUFSIZE - 2"
    and "list_all (\<lambda>e. nul_free e \<and> e \<noteq> [] \<and> newline \<notin> set e) (es @ [t])"
  shows "read_env (replicate BUFSIZE NUL) 0 nd fp s = snd (check_entries (es @ [t]) nd s)"
proof -
  let ?chunk = "ended es @ t"
  let ?buf = "ended (es @ [t]) @ NUL # []"
  have "newline \<notin> set (take (BUFSIZE - 2) fp)"
    unfolding assms(1) using assms(3) by (auto simp: ended_def list_all_iff)
  from take_first_line [OF this] assms(1) have chunk: "take (BUFSIZE - 2) (first_line fp) = ?chunk" by simp
  from assms(1,2) have "fp \<noteq> []" by auto
  moreover have "store (replicate BUFSIZE NUL) 0 (?chunk @ [NUL]) = ?buf"
    using assms(2) by (simp add: store_def drop_replicate)
  ultimately have line: "fgets (replicate BUFSIZE NUL) (BUFSIZE - 1) fp = Some (?buf, drop (BUFSIZE - 2) fp)"
    using chunk assms(2) by (simp add: fgets_def)
  have "list_all (\<lambda>e. nul_free e \<and> e \<noteq> []) (es @ [t])" using assms(3) by (auto simp: list_all_iff)
  from scan_env_entries [OF this, of "[]" "[]" nd s] assms(2)
  have "scan_env ?buf 0 nd s = (BUFSIZE - 1, check_entries (es @ [t]) nd s)" by simp
  with line show ?thesis
    using read_env_ended [OF buf_ok_fgets [OF buf_ok_start line], where ?'a = 'a]
    by (subst read_env.simps) (simp split: prod.split)
qed

text \<open>
  C39. A long environment is cut without notice: when the entries of \<^verbatim>\<open>CLASSPATH\<close> and \<^verbatim>\<open>LD_LIBRARY_PATH\<close> together are
  longer than the 8190 bytes that one \<^verbatim>\<open>fgets\<close> takes, \<^verbatim>\<open>DetermineEnvironment\<close> still reports success, but only the
  beginning of \<^verbatim>\<open>LD_LIBRARY_PATH\<close> is set; what the following calls read is never looked at.
\<close>

theorem long_environment_cut:
  assumes "helper_prints B (environment_text env)"
    and "env ''CLASSPATH'' = Some cp" and "env ''LIBHDFS_OPTS'' = None" and "env ''LD_LIBRARY_PATH'' = Some ld"
    and "nul_free cp" and "newline \<notin> set cp" and "nul_free ld" and "newline \<notin> set ld"
    and "length cp + 27 \<le> BUFSIZE - 2" and "BUFSIZE - 2 < length cp + 27 + length ld"
  shows "\<exists>s'. DetermineEnvironment B s = (0, s') \<and>
    p_environ s' ''LD_LIBRARY_PATH'' = Some (take (BUFSIZE - 2 - (length cp + 27)) ld)"
proof -
  let ?k = "BUFSIZE - 2 - (length cp + 27)"
  let ?es = "[''CLASSPATH='' @ cp]" and ?t = "''LD_LIBRARY_PATH='' @ take ?k ld"
  have whole: "environment_text env = ended ?es @ ''LD_LIBRARY_PATH='' @ ld @ [NUL]"
    using assms(2-4) by (simp add: environment_text_def entry_def)
  have len: "length (ended ?es @ ?t) = BUFSIZE - 2"
    using assms(9,10) by simp
  have "take (BUFSIZE - 2) (environment_text env) = ended ?es @ ?t"
  proof -
    have "environment_text env = (ended ?es @ ?t) @ drop ?k ld @ [NUL]"
      using append_take_drop_id [of ?k ld] by (metis whole append_assoc)
    then show ?thesis using len by (metis append_eq_conv_conj)
  qed
  moreover have "list_all (\<lambda>e. nul_free e \<and> e \<noteq> [] \<and> newline \<notin> set e) (?es @ [?t])"
    using assms(5-8) by (auto simp: nul_free_def dest: in_set_takeD)
  ultimately have "p_environ (read_env (replicate BUFSIZE NUL) 0 all_needed (environment_text env) s1) =
      (p_environ s)(''CLASSPATH'' \<mapsto> cp, ''LD_LIBRARY_PATH'' \<mapsto> take ?k ld)"
    if "p_environ s1 = p_environ s" for s1
    using read_env_cut [OF _ len, of "environment_text env" all_needed s1] that
    by (simp add: check_entry_simps)
  from DetermineEnvironment_reads [OF assms(1) this, of s] show ?thesis by auto
qed


section \<open>Searching for the Java virtual machine\<close>

text \<open>A search path as the list of its directories.\<close>

fun split_on :: "char \<Rightarrow> string \<Rightarrow> string list" where
  "split_on c [] = [[]]"
| "split_on c (x # xs) = (if x = c then [] # split_on c xs
     else (case split_on c xs of y # ys \<Rightarrow> (x # y) # ys | [] \<Rightarrow> [[x]]))"

text \<open>The files that a search tries: directories that are too long end it, empty ones are passed over.\<close>

definition jvm_candidates :: "string \<Rightarrow> string list" where
  "jvm_candidates path = map (\<lambda>d. d @ ''/libjvm.so'')
     (filter (\<lambda>d. d \<noteq> []) (takeWhile (\<lambda>d. length d + length ''/libjvm.so'' < BUFSIZE) (split_on (CHR '':'') path)))"

fun try_all :: "(string \<Rightarrow> ('w, bool) bcall) \<Rightarrow> string list \<Rightarrow> 'w boot \<Rightarrow> int \<times> 'w boot" where
  "try_all f [] s = (1, s)"
| "try_all f (p # ps) s = (case brun (f p) s of (found, s) \<Rightarrow> if found then (0, s) else try_all f ps s)"

lemma split_on_single: "c \<notin> set xs \<Longrightarrow> split_on c xs = [xs]"
  by (induction xs) auto

lemma split_on_append: "c \<notin> set xs \<Longrightarrow> split_on c (xs @ c # ys) = xs # split_on c ys"
  by (induction xs) auto

lemma jvm_candidates_single:
  "CHR '':'' \<notin> set d \<Longrightarrow> jvm_candidates d = (if d = [] \<or> BUFSIZE \<le> length d + length ''/libjvm.so'' then [] else [d @ ''/libjvm.so''])"
  by (auto simp: jvm_candidates_def split_on_single)

lemma jvm_candidates_append:
  "CHR '':'' \<notin> set d \<Longrightarrow> jvm_candidates (d @ CHR '':'' # path) =
   (if BUFSIZE \<le> length d + length ''/libjvm.so'' then []
    else if d = [] then jvm_candidates path else (d @ ''/libjvm.so'') # jvm_candidates path)"
  by (auto simp: jvm_candidates_def split_on_append)

lemma jvm_name:
  assumes "length buf = BUFSIZE" and "nul_free d" and "length d + length ''/libjvm.so'' < BUFSIZE"
    and "buf' = strncpy (strncpy buf 0 (d @ rest) (length d)) (length d) ''/libjvm.so'' (BUFSIZE - length d)"
  shows "length buf' = BUFSIZE \<and> c_str buf' = d @ ''/libjvm.so''"
proof -
  have "buf' = (d @ ''/libjvm.so'') @ replicate (BUFSIZE - length d - length ''/libjvm.so'') NUL"
    using assms(1,3) by (simp add: assms(4) strncpy_def store_def)
  moreover obtain n where n: "BUFSIZE - length d - length ''/libjvm.so'' = Suc n"
    using assms(3) by (cases "BUFSIZE - length d - length ''/libjvm.so''") auto
  ultimately have b: "buf' = (d @ ''/libjvm.so'') @ NUL # replicate n NUL" by simp
  have "nul_free (d @ ''/libjvm.so'')" using assms(2) by simp
  with b have "c_str buf' = d @ ''/libjvm.so''" by (simp only: c_str_append_nul)
  moreover have "length buf' = BUFSIZE" using b n by simp
  ultimately show ?thesis by blast
qed

lemma loadJvm_loop_step:
  assumes "length buf = BUFSIZE" and "nul_free d" and "CHR '':'' \<notin> set d"
    and "path = d \<and> next = None \<or> path = d @ CHR '':'' # rest \<and> next = Some rest"
  shows "\<exists>buf'. length buf' = BUFSIZE \<and> loadJvm_loop B path buf s =
    (if BUFSIZE \<le> length d + length ''/libjvm.so'' then (1, s)
     else case (if d = [] then (False, s) else brun (dlopen B (d @ ''/libjvm.so'')) s) of
       (found, s) \<Rightarrow> if found then (0, s)
         else (case next of None \<Rightarrow> (1, s) | Some rest \<Rightarrow> if rest = [] then (1, s)
           else loadJvm_loop B rest buf' s))"
proof -
  define buf' where "buf' = (if d = [] then buf
    else strncpy (strncpy buf 0 path (length d)) (length d) ''/libjvm.so'' (BUFSIZE - length d))"
  obtain r where path: "path = d @ r" using assms(4) by auto
  have chr: "strchr (CHR '':'') path = (case next of None \<Rightarrow> None | Some _ \<Rightarrow> Some (length d))"
    using assms(3,4) by (auto simp: strchr_None strchr_append)
  have len: "next = None \<longrightarrow> length path = length d" "next \<noteq> None \<longrightarrow> drop (Suc (length d)) path = the next"
    using assms(4) by auto
  show ?thesis
  proof (cases "BUFSIZE \<le> length d + length ''/libjvm.so''")
    case True
    with assms(1) chr len show ?thesis
      by (subst loadJvm_loop.simps) (auto split: option.splits)
  next
    case False
    then have name: "length buf' = BUFSIZE" "d \<noteq> [] \<Longrightarrow> c_str buf' = d @ ''/libjvm.so''"
      using jvm_name [OF assms(1,2), of _ r] assms(1) by (auto simp: buf'_def path)
    show ?thesis
      using False chr len name
      by (intro exI [of _ buf'], subst loadJvm_loop.simps)
        (cases "d = []"; cases "next"; simp add: jvm_try_def Let_def buf'_def [symmetric] buf'_def split: prod.split)
  qed
qed

lemma loadJvm_loop_tries:
  assumes "length buf = BUFSIZE" and "nul_free path"
  shows "loadJvm_loop B path buf s = try_all (dlopen B) (jvm_candidates path) s"
  using assms
proof (induction path arbitrary: buf s rule: length_induct)
  case (1 path)
  show ?case
  proof (cases "CHR '':'' \<in> set path")
    case False
    from loadJvm_loop_step [OF 1(2,3) False, of path None _ B s] False show ?thesis
      by (auto simp: jvm_candidates_single split: prod.split)
  next
    case True
    then obtain d rest where path: "path = d @ CHR '':'' # rest" "CHR '':'' \<notin> set d" by (meson split_list_first)
    with 1(3) have free: "nul_free d" "nul_free rest" by simp_all
    have IH: "loadJvm_loop B rest buf s = try_all (dlopen B) (jvm_candidates rest) s" if "length buf = BUFSIZE" for buf s
      using 1(1) that path(1) free(2) by simp
    have empty: "jvm_candidates [] = []" by (simp add: jvm_candidates_single)
    have "path = d \<and> Some rest = None \<or> path = d @ CHR '':'' # rest \<and> Some rest = Some rest" using path(1) by simp
    from loadJvm_loop_step [OF 1(2) free(1) path(2) this, of B s] show ?thesis
      by (elim exE conjE) (simp add: path(1) jvm_candidates_append [OF path(2)] IH empty split: prod.split)
  qed
qed

lemma try_all_frame: "p_ub (snd (try_all f ps s)) = p_ub s \<and> boot_oss (snd (try_all f ps s)) = boot_oss s"
proof (induction ps arbitrary: s)
  case (Cons p ps)
  obtain found s1 where "brun (f p) s = (found, s1)" by fastforce
  with Cons [of s1] brun_frame [of "f p" s] show ?case by simp
qed simp

lemma jvm_try_frame: "jvm_try B path len buf s = (found, buf', s') \<Longrightarrow> boot_oss s' = boot_oss s"
  by (auto simp: jvm_try_def Let_def dest!: brun_frame split: if_splits prod.splits)

lemma loadJvm_frame: "boot_oss (snd (loadJvm B s)) = boot_oss s"
proof -
  have "boot_oss (snd (loadJvm_loop B path buf s)) = boot_oss s" for path buf
  proof (induction B path buf s rule: loadJvm_loop.induct)
    case (1 B path buf s)
    show ?case
      using 1 by (subst loadJvm_loop.simps)
        (auto simp: Let_def dest!: jvm_try_frame split: option.split prod.split)
  qed
  then show ?thesis by (simp add: loadJvm_def split: option.split)
qed

text \<open>
  C25. The search for the Java virtual machine tries \<^verbatim>\<open>libjvm.so\<close> in the directories of \<^verbatim>\<open>LD_LIBRARY_PATH\<close> in order until
  one loads; empty directories are passed over, and one whose file name would not fit into the buffer
  of 8192 bytes ends the search.  The names are put together inside that buffer: nothing undefined happens.
\<close>

theorem loadJvm_tries:
  assumes "p_environ s ''LD_LIBRARY_PATH'' = Some path" and "nul_free path"
  shows "loadJvm B s = try_all (dlopen B) (jvm_candidates path) s \<and> p_ub (snd (loadJvm B s)) = p_ub s"
  using assms try_all_frame [of "dlopen B" "jvm_candidates path" s] loadJvm_loop_tries [OF length_replicate assms(2), of B NUL s]
  by (simp add: loadJvm_def)

lemma Bootstrap_frame: "boot_oss (snd (Bootstrap B native_oss Logger config_fn parms s)) = boot_oss s"
proof -
  obtain r s1 where d: "DetermineEnvironment B s = (r, s1)" by fastforce
  obtain r2 s2 where j: "loadJvm B s1 = (r2, s2)" by fastforce
  have "boot_oss s1 = boot_oss s" "boot_oss s2 = boot_oss s1"
    using DetermineEnvironment_frame [of B s] loadJvm_frame [of B s1] d j by simp_all
  with d j show ?thesis
    by (auto simp: Bootstrap_def brun_def split: prod.split option.split)
qed

text \<open>
  C26. The server gets one storage system: once the module has returned one it returns the same one to every later
  call, whatever its arguments, and does nothing else; after a failure nothing is remembered and the next call
  tries again.  When the environment cannot be determined, no module is loaded.
\<close>

theorem storage_system_once:
  assumes "boot_GetStorageSystem B native_oss Logger config_fn parms s = (r, s')"
  shows "(r \<noteq> None \<longrightarrow> boot_GetStorageSystem B' native_oss' Logger' config_fn' parms' s' = (r, s')) \<and>
    (r = None \<longrightarrow> boot_oss s' = None) \<and>
    (boot_oss s = None \<and> fst (DetermineEnvironment B s) \<noteq> 0 \<longrightarrow> r = None \<and> s' = snd (DetermineEnvironment B s))"
proof (cases "boot_oss s")
  case None
  obtain r1 s1 where b: "Bootstrap B native_oss Logger config_fn parms s = (r1, s1)" by fastforce
  with None Bootstrap_frame [of B native_oss Logger config_fn parms s] have "boot_oss s1 = None" by simp
  moreover have "r1 = None \<and> s1 = snd (DetermineEnvironment B s)" if "fst (DetermineEnvironment B s) \<noteq> 0"
    using b that by (auto simp: Bootstrap_def split: prod.splits)
  ultimately show ?thesis
    using assms None b by (cases r1) (auto simp: boot_GetStorageSystem_def)
next
  case (Some p)
  with assms show ?thesis by (auto simp: boot_GetStorageSystem_def)
qed


section \<open>A concrete start\<close>

text \<open>Writing to a list, a helper that prints a given text, and one Java virtual machine.\<close>

definition append_write :: "bytes write_fn" where
  "append_write bs e w = (int (length bs), e, w @ bs)"

definition helper_lib :: "bytes \<Rightarrow> int \<Rightarrow> string list boot_lib" where
  "helper_lib txt status =
     \<lparr>popen = (\<lambda>c e w. (Some txt, e, w)), pclose = (\<lambda>e w. (status, e, w)),
      dlopen = (\<lambda>p e w. (p = ''/jvm/libjvm.so'', e, p # w)),
      boot_getPlugin = (\<lambda>lib name e w. (Some (\<lambda>oss log cfn parms e w. (Some 7, e, w)), e, w)),
      XRDPLUGIN_SOVERSION = ''5''\<rparr>"

definition helper_proc :: "bytes proc" where
  "helper_proc = \<lparr>p_errno = 0, p_environ = [''CLASSPATH'' \<mapsto> ''/h.jar'', ''LD_LIBRARY_PATH'' \<mapsto> ''/a::/jvm''],
     p_ub = False, p_world = []\<rparr>"

definition server_proc :: "string list boot" where
  "server_proc = \<lparr>p_errno = 0, p_environ = [''LIBHDFS_OPTS'' \<mapsto> ''-Xmx1g'', ''LD_LIBRARY_PATH'' \<mapsto> ''/a::/jvm:/b''],
     p_ub = False, p_world = [], boot_oss = None\<rparr>"

lemma helper_lib_prints: "helper_prints (helper_lib txt 0) txt"
  by (simp add: helper_prints_def helper_lib_def)

theorem environment_roundtrip_witness:
  "\<exists>child' s'. envcheck_main append_write helper_proc = Some (0, child') \<and>
     DetermineEnvironment (helper_lib (p_world child') 0) server_proc = (0, s') \<and>
     p_environ s' ''LIBHDFS_OPTS'' = Some ''-Xmx1g'' \<and> p_environ s' ''LD_LIBRARY_PATH'' = Some ''/a::/jvm''"
proof -
  have "write_all append_write (\<lambda>w. w)" by (simp add: write_all_def append_write_def)
  moreover have "p_world helper_proc = []" by (simp add: helper_proc_def)
  moreover have "length (environment_text (p_environ helper_proc)) \<le> BUFSIZE - 2"
    by (simp add: helper_proc_def environment_text_def entry_def)
  moreover have "nul_free v \<and> newline \<notin> set v" if "p_environ helper_proc var = Some v" for var v
    using that by (auto simp: helper_proc_def split: if_splits)
  ultimately obtain child' where main: "envcheck_main append_write helper_proc = Some (0, child')"
    and read: "\<forall>B s. helper_prints B (p_world child') \<longrightarrow> (\<exists>s'. DetermineEnvironment B s = (0, s') \<and>
      p_environ s' = imported (p_environ helper_proc) (p_environ (s :: string list boot)))"
    using environment_roundtrip [of append_write "\<lambda>w. w" helper_proc] by blast
  obtain s' where "DetermineEnvironment (helper_lib (p_world child') 0) server_proc = (0, s')"
    "p_environ s' = imported (p_environ helper_proc) (p_environ server_proc)"
    using read helper_lib_prints by blast
  with main show ?thesis by (auto simp: imported_def helper_proc_def server_proc_def)
qed

theorem long_environment_cut_witness:
  "\<exists>s'. DetermineEnvironment (helper_lib (environment_text
       [''CLASSPATH'' \<mapsto> replicate 5000 (CHR ''c''), ''LD_LIBRARY_PATH'' \<mapsto> replicate 5000 (CHR ''l'')]) 0) server_proc = (0, s') \<and>
     p_environ s' ''LD_LIBRARY_PATH'' = Some (replicate 3163 (CHR ''l''))"
  using long_environment_cut [OF helper_lib_prints, where cp = "replicate 5000 (CHR ''c'')" and
      ld = "replicate 5000 (CHR ''l'')" and env = "[''CLASSPATH'' \<mapsto> replicate 5000 (CHR ''c''),
        ''LD_LIBRARY_PATH'' \<mapsto> replicate 5000 (CHR ''l'')]", of server_proc]
  by (simp add: nul_free_def)

theorem loadJvm_tries_witness:
  "loadJvm (helper_lib [] 0) server_proc = (0, server_proc\<lparr>p_world := [''/jvm/libjvm.so'', ''/a/libjvm.so'']\<rparr>)"
  using loadJvm_tries [of server_proc "''/a::/jvm:/b''" "helper_lib [] 0"]
  by (simp add: server_proc_def helper_lib_def jvm_candidates_def brun_def)

theorem storage_system_once_witness:
  "fst (boot_GetStorageSystem (helper_lib [] 256) None None None None server_proc) = None"
proof -
  have nothing: "read_env buf pos nd [] s = s" for buf pos nd and s :: "string list boot"
    by (simp add: read_env.simps fgets_def)
  have "fst (DetermineEnvironment (helper_lib [] 256) server_proc) \<noteq> 0"
    by (simp add: DetermineEnvironment_def brun_def helper_lib_def nothing WIFEXITED_def WEXITSTATUS_def)
  then show ?thesis
    using storage_system_once [of "helper_lib [] 256" None None None None server_proc, OF prod.collapse [symmetric]]
    by (simp add: server_proc_def)
qed

end
