(* ===== verification/Spec2Isabelle.thy ===== *)
theory Spec2Isabelle
  imports Hdfs_Directory Hdfs_ChecksumAccess Hdfs_FileLife Hdfs_Config Hdfs_Bootstrap
begin

text \<open>
  \<^bold>\<open>xrootd-hdfs\<close>: the plugin that lets an XRootD server store its files in HDFS.  The server loads the
  bootstrap module, which loads the module proper; the server then makes file and directory objects, calls
  path operations on the file system object, and asks the checksum manager for checksums, which the file
  objects record while they write.

  \<^bold>\<open>How the program is modelled.\<close>  An operation is a function on explicit states: the object it is called on
  (a record with the fields of the class) and the state \<open>sys\<close> of the plugin.  It returns its C++ return value,
  the output buffers, and the new states.  Where a loop may run for ever or a call may nest without end the
  result is an option, and theorems that it returns say so.  Code outside the repository is a record of
  functions: libhdfs (\<open>L\<close>), zlib and OpenSSL (\<open>D\<close>), the server's checksum data and configuration stream (\<open>K\<close>),
  the process environment (\<open>B\<close>, \<open>W\<close>).  What a theorem needs of them is a hypothesis with a name
  (\<^const>\<open>connects_as\<close>, \<^const>\<open>pread_contract\<close>, \<^const>\<open>write_contract\<close>, \<^const>\<open>write_appends\<close>, \<^const>\<open>stream_contract\<close>,
  \<^const>\<open>loads\<close>, \<^const>\<open>write_all\<close>, \<^const>\<open>helper_prints\<close>), and each is shown to hold for a concrete instance.
  The state counts the resources taken and not given back (\<open>live\<close>), says when the code did something that C++
  leaves undefined (\<open>ub\<close>, \<open>p_ub\<close>), and lets allocations fail (\<open>mem\<close>).

  \<^bold>\<open>Theories\<close>, in the order in which they build on each other:

  \<^item> \<open>Hdfs_Prelude\<close>: bytes, C strings and the string routines used, error codes, numbers as text, segments of lists.

  \<^item> \<open>Hdfs_Runtime\<close> (\<^verbatim>\<open>src/src/XrdHdfs.cc\<close>, the functions every operation calls): the state, the connection cache
    (\<^const>\<open>hadoop_connect\<close>), the choice of the user (\<^const>\<open>ExtractAuthName\<close>), name translation (\<^const>\<open>GetRealPath\<close>,
    \<^const>\<open>Lfn2Pfn\<close>) and error reports (\<^const>\<open>sys_Emsg\<close>).  The cache is a \<open>memo_table\<close>: connections are made once per user.

  \<^item> \<open>Hdfs_Memory\<close>: an HDFS in memory, the concrete instance on which the examples run.

  \<^item> \<open>Hdfs_Namespace\<close> (\<^verbatim>\<open>XrdHdfsSys\<close>): \<^const>\<open>Stat\<close>, \<^const>\<open>Chmod\<close>, \<^const>\<open>Mkdir\<close>, \<^const>\<open>Remdir\<close>, \<^const>\<open>Rename\<close>, \<^const>\<open>Truncate\<close>,
    \<^const>\<open>Unlink\<close>, \<^const>\<open>Create\<close>.  They share a frame; what it guarantees is proved once in the locale \<open>path_work\<close>, and every
    operation is an interpretation of it: nothing leaks, the cache stays sound, HDFS is used only as the client's user.

  \<^item> \<open>Hdfs_Directory\<close> (\<^verbatim>\<open>XrdHdfsDirectory\<close>): listing is complete and in order, the object is memory safe however it is used
    (a step relation with its reachable states), and misuse is refused.

  \<^item> \<open>Hdfs_Cksum\<close> and \<open>Hdfs_ChecksumState\<close> (\<^verbatim>\<open>src/src/XrdHdfsChecksumCalc.cc\<close>, \<^verbatim>\<open>ChecksumState\<close>): the table-driven checksum is
    the POSIX one; \<^const>\<open>Update\<close> refines appending to the data for all digests at once, CVMFS chunks included, so that the
    recorded POSIX cksum, Adler-32, MD5 and graft depend on the bytes only.  The CRC-32 does not: it continues from
    uninitialised memory.  The graft is the complete one of files smaller than a chunk or a multiple of it.

  \<^item> \<open>Hdfs_File\<close> (\<^verbatim>\<open>XrdHdfsFile\<close>): \<^const>\<open>Open\<close>, \<^const>\<open>Read\<close> with its read-ahead buffer, \<^const>\<open>Write\<close>, \<^const>\<open>Fstat\<close>, the
    asynchronous variants and the parts of \<^verbatim>\<open>Close\<close>.  A read returns exactly the slice of the file it was asked for,
    whatever the state of the buffer; checksums follow the writes.

  \<^item> \<open>Hdfs_ChecksumManager\<close> and \<open>Hdfs_ChecksumAccess\<close> (\<^verbatim>\<open>src/src/XrdHdfsChecksum.cc\<close>, \<^verbatim>\<open>ChecksumManager\<close>): the text of a checksum
    file and its parser, writing and reading it, \<^const>\<open>Get\<close>, \<^const>\<open>Calc\<close>, \<^const>\<open>Ver\<close>, \<^const>\<open>Set_cks\<close> and the rest of the interface, and
    \<^const>\<open>Close\<close>, which records the checksums of a written file by opening another one.

  \<^item> \<open>Hdfs_FileLife\<close>: any sequence of operations on a file object gives back every HDFS handle, checksum state and file
    information it took; names, buffers and objects are given back too unless a failed \<^const>\<open>Open\<close> is repeated or checksums are recorded.

  \<^item> \<open>Hdfs_Config\<close> (\<^verbatim>\<open>src/src/XrdHdfsConfig.cc\<close>, \<^verbatim>\<open>XrdHdfsSys::Init\<close>): the configuration file and the name translation it chooses.

  \<^item> \<open>Hdfs_EnvCheck\<close> and \<open>Hdfs_Bootstrap\<close> (\<^verbatim>\<open>src/src/XrdHdfsEnvCheck.cc\<close>, \<^verbatim>\<open>src/src/XrdHdfsBootstrap.cc\<close>): the helper program that prints
    the environment, the module that reads it, the search for the Java virtual machine, and the single storage system.

  \<^bold>\<open>Bounds.\<close>  \<^const>\<open>Close\<close> takes a bound on how deep closing nests through the checksum files.  Two levels are enough when the
  translated names of checksum files stay below \<^verbatim>\<open>/cksums\<close>; when they do not, checksum files have checksum files of their own, and
  closing nests exactly as deep as that chain of names is long, plus two.  The chain ends because a name translation refuses
  names longer than its buffer, and the untranslated name is below \<^verbatim>\<open>/cksums\<close>.  Other loops have no fuel: they are recursive with a termination proof, or partial functions with a
  theorem that they return.

  \<^bold>\<open>What the properties also show\<close> are behaviours of the code that its authors cannot have meant: an uninitialised
  checksum, a chunk left out of the CVMFS graft, checksums of bytes that were not written, a data file deleted by a request
  for its checksum, an environment cut off, a buffer overrun in the helper program.  Each is a theorem with a concrete instance.

  \<^bold>\<open>Not modelled.\<close>  Log output and trace messages; the mutexes (an operation is one step, so interleavings of threads are
  not considered); the statistics of the read buffer beyond their counters; the build, packaging and test files.
\<close>

end
